theory Spec2Isabelle
  imports Main "HOL-Library.Multiset"
begin

section \<open>Documents, bytes and files\<close>

text \<open>
  A PDF document is seen through its page tree: the list of its pages in document order.
  A page is either a page carrying source content or the blank page that pdf-lib creates
  when \<^verbatim>\<open>addPage()\<close> is called without an argument.
\<close>

datatype 'c page = SourcePage 'c | BlankPage

type_synonym 'c PDFDocument = "'c page list"

text \<open>
  A byte buffer either is the serialisation of a document or does not parse.
  A \<^verbatim>\<open>File\<close> has a name and its bytes; \<^verbatim>\<open>file.arrayBuffer()\<close> reads the bytes.
\<close>

datatype 'c bytes = PdfBytes "'c PDFDocument" | NotPdf

record 'c File =
  file_name :: string
  file_bytes :: "'c bytes"

definition arrayBuffer :: "'c File \<Rightarrow> 'c bytes" where
  "arrayBuffer f = file_bytes f"

datatype error =
    ParseError
  | RemovePageFromEmptyDocumentError
  | IndexOutOfRange int
  | TypeError
  | RenderError
  | DOMException string

section \<open>The pdf-lib operations used by the service\<close>

text \<open>\<^verbatim>\<open>PDFDocument.load(bytes)\<close> rejects when the buffer does not parse.\<close>

definition PDFDocument_load :: "'c bytes \<Rightarrow> error + 'c PDFDocument" where
  "PDFDocument_load b = (case b of PdfBytes d \<Rightarrow> Inr d | NotPdf \<Rightarrow> Inl ParseError)"

definition PDFDocument_create :: "'c PDFDocument" where
  "PDFDocument_create = []"

definition getPageCount :: "'c PDFDocument \<Rightarrow> nat" where
  "getPageCount d = length d"

text \<open>
  \<^verbatim>\<open>removePage(index)\<close> throws on a document without pages, asserts
  \<^verbatim>\<open>0 <= index <= pageCount - 1\<close>, and otherwise drops that leaf of the page tree.
\<close>

definition removePage :: "'c PDFDocument \<Rightarrow> int \<Rightarrow> error + 'c PDFDocument" where
  "removePage d idx =
     (if getPageCount d = 0 then Inl RemovePageFromEmptyDocumentError
      else if idx < 0 \<or> int (getPageCount d) - 1 < idx then Inl (IndexOutOfRange idx)
      else Inr (take (nat idx) d @ drop (Suc (nat idx)) d))"

text \<open>
  \<^verbatim>\<open>copyPages(src, indices)\<close> reads \<^verbatim>\<open>srcPages[indices[k]]\<close> for each k and copies
  it; an index outside the source makes that read \<^verbatim>\<open>undefined\<close> and the copy throws.
\<close>

fun copyPages :: "'c PDFDocument \<Rightarrow> int list \<Rightarrow> error + 'c page list" where
  "copyPages src [] = Inr []"
| "copyPages src (i # is) =
     (if i < 0 \<or> int (length src) \<le> i then Inl TypeError
      else (case copyPages src is of
              Inl e \<Rightarrow> Inl e
            | Inr ps \<Rightarrow> Inr (src ! nat i # ps)))"

definition addPage :: "'c PDFDocument \<Rightarrow> 'c page \<Rightarrow> 'c PDFDocument" where
  "addPage d p = d @ [p]"

definition getPageIndices :: "'c PDFDocument \<Rightarrow> int list" where
  "getPageIndices d = map int [0..<getPageCount d]"

text \<open>
  pdf-lib's \<^verbatim>\<open>save(options)\<close> reads \<^verbatim>\<open>SaveOptions.addDefaultPage\<close>, which is
  \<^verbatim>\<open>true\<close> unless the caller says otherwise. The service calls \<^verbatim>\<open>save()\<close> without
  options, so a document that has no page is given one blank page before it is
  serialised.
\<close>

definition save :: "'c PDFDocument \<Rightarrow> 'c bytes" where
  "save d = (if getPageCount d = 0 then PdfBytes (addPage d BlankPage) else PdfBytes d)"

section \<open>Arrays of numbers\<close>

text \<open>
  \<^verbatim>\<open>Array.prototype.sort(cmp)\<close> is a stable sort: \<open>x\<close> stays in front of \<open>y\<close> unless
  \<open>cmp x y > 0\<close>.
\<close>

fun insert_by :: "('a \<Rightarrow> 'a \<Rightarrow> int) \<Rightarrow> 'a \<Rightarrow> 'a list \<Rightarrow> 'a list" where
  "insert_by cmp x [] = [x]"
| "insert_by cmp x (y # ys) =
     (if cmp x y \<le> 0 then x # y # ys else y # insert_by cmp x ys)"

definition js_sort :: "('a \<Rightarrow> 'a \<Rightarrow> int) \<Rightarrow> 'a list \<Rightarrow> 'a list" where
  "js_sort cmp xs = foldr (insert_by cmp) xs []"

text \<open>
  Arrays are objects: a heap holds them, a reference is a position in the heap.
  The spread \<^verbatim>\<open>[...a]\<close> allocates a new array with the elements of \<open>a\<close>;
  \<^verbatim>\<open>sort\<close> reorders the array it is called on, in place.
\<close>

type_synonym ref = nat
type_synonym heap = "int list list"

definition array_spread :: "heap \<Rightarrow> ref \<Rightarrow> heap \<times> ref" where
  "array_spread h r = (h @ [h ! r], length h)"

definition array_sort :: "(int \<Rightarrow> int \<Rightarrow> int) \<Rightarrow> heap \<Rightarrow> ref \<Rightarrow> heap" where
  "array_sort cmp h r = h[r := js_sort cmp (h ! r)]"

section \<open>The page mutator\<close>

fun removeLoop :: "'c PDFDocument \<Rightarrow> int list \<Rightarrow> error + 'c PDFDocument" where
  "removeLoop pdfDoc [] = Inr pdfDoc"
| "removeLoop pdfDoc (idx # rest) =
     (case removePage pdfDoc idx of
        Inl e \<Rightarrow> Inl e
      | Inr pdfDoc' \<Rightarrow> removeLoop pdfDoc' rest)"

definition removePagesAndSave :: "heap \<Rightarrow> 'c File \<Rightarrow> ref \<Rightarrow> (error + 'c bytes) \<times> heap" where
  "removePagesAndSave h originalFile pageIndicesToRemove =
     (case PDFDocument_load (arrayBuffer originalFile) of
        Inl e \<Rightarrow> (Inl e, h)
      | Inr pdfDoc \<Rightarrow>
          (let (h1, copy) = array_spread h pageIndicesToRemove;
               h2 = array_sort (\<lambda>a b. b - a) h1 copy;
               sortedIndices = h2 ! copy
           in (case removeLoop pdfDoc sortedIndices of
                 Inl e \<Rightarrow> (Inl e, h2)
               | Inr pdfDoc' \<Rightarrow> (Inr (save pdfDoc'), h2))))"

fun extractLoop :: "'c PDFDocument \<Rightarrow> 'c PDFDocument \<Rightarrow> int list \<Rightarrow> error + 'c PDFDocument" where
  "extractLoop pdfDoc newPdfDoc [] = Inr newPdfDoc"
| "extractLoop pdfDoc newPdfDoc (idx # rest) =
     (case copyPages pdfDoc [idx] of
        Inl e \<Rightarrow> Inl e
      | Inr [] \<Rightarrow> Inl TypeError
      | Inr (copiedPage # _) \<Rightarrow> extractLoop pdfDoc (addPage newPdfDoc copiedPage) rest)"

definition extractPagesAndSave :: "heap \<Rightarrow> 'c File \<Rightarrow> ref \<Rightarrow> (error + 'c bytes) \<times> heap" where
  "extractPagesAndSave h originalFile pageIndicesToExtract =
     (case PDFDocument_load (arrayBuffer originalFile) of
        Inl e \<Rightarrow> (Inl e, h)
      | Inr pdfDoc \<Rightarrow>
          (let newPdfDoc = PDFDocument_create;
               (h1, copy) = array_spread h pageIndicesToExtract;
               h2 = array_sort (\<lambda>a b. a - b) h1 copy;
               sortedIndices = h2 ! copy
           in (case extractLoop pdfDoc newPdfDoc sortedIndices of
                 Inl e \<Rightarrow> (Inl e, h2)
               | Inr newPdfDoc' \<Rightarrow> (Inr (save newPdfDoc'), h2))))"

fun mergeLoop :: "'c PDFDocument \<Rightarrow> 'c File list \<Rightarrow> error + 'c PDFDocument" where
  "mergeLoop mergedPdf [] = Inr mergedPdf"
| "mergeLoop mergedPdf (file # files) =
     (case PDFDocument_load (arrayBuffer file) of
        Inl e \<Rightarrow> Inl e
      | Inr pdf \<Rightarrow>
          (case copyPages pdf (getPageIndices pdf) of
             Inl e \<Rightarrow> Inl e
           | Inr copiedPages \<Rightarrow> mergeLoop (foldl addPage mergedPdf copiedPages) files))"

definition mergePdfs :: "'c File list \<Rightarrow> error + 'c bytes" where
  "mergePdfs files =
     (case mergeLoop PDFDocument_create files of
        Inl e \<Rightarrow> Inl e
      | Inr mergedPdf \<Rightarrow> Inr (save mergedPdf))"

section \<open>Thumbnail pipeline\<close>

record PageThumbnail =
  index :: int
  url :: string
  width :: int
  height :: int

text \<open>
  What pdf.js and the DOM answer during one run of the pipeline, by 1-based page number:
  whether \<^verbatim>\<open>pdf.getPage(i)\<close> resolves, whether \<^verbatim>\<open>canvas.getContext('2d')\<close>
  yields a context for the canvas made for page \<open>i\<close>, whether the render promise
  resolves, and the viewport (at scale 0.5) and JPEG data URL of a rendered page.
\<close>

record 'c renderer =
  getPage_ok :: "int \<Rightarrow> bool"
  getContext_2d :: "int \<Rightarrow> bool"
  render_ok :: "int \<Rightarrow> bool"
  getViewport :: "'c page \<Rightarrow> int \<times> int"
  toDataURL :: "'c page \<Rightarrow> string"

text \<open>\<^verbatim>\<open>getDocument({data}).promise\<close> rejects when the buffer cannot be opened.\<close>

definition getDocument :: "'c bytes \<Rightarrow> error + 'c PDFDocument" where
  "getDocument b = (case b of PdfBytes d \<Rightarrow> Inr d | NotPdf \<Rightarrow> Inl ParseError)"

text \<open>
  The page loop \<^verbatim>\<open>for (let i = 1; i <= totalPages; i++)\<close>. The second component of
  the result lists the calls \<^verbatim>\<open>onProgress(i, totalPages)\<close> made so far.
\<close>

function thumbLoop ::
  "'c renderer \<Rightarrow> 'c PDFDocument \<Rightarrow> int \<Rightarrow> int \<Rightarrow> PageThumbnail list \<Rightarrow> (int \<times> int) list
   \<Rightarrow> (error + PageThumbnail list) \<times> (int \<times> int) list" where
  "thumbLoop br pdf totalPages i thumbnails calls =
     (if i \<le> totalPages then
        (if \<not> getPage_ok br i then (Inl RenderError, calls)
         else
           (let pg = pdf ! nat (i - 1);
                viewport = getViewport br pg
            in if \<not> getContext_2d br i then thumbLoop br pdf totalPages (i + 1) thumbnails calls
               else if \<not> render_ok br i then (Inl RenderError, calls)
               else thumbLoop br pdf totalPages (i + 1)
                      (thumbnails @ [\<lparr>index = i - 1, url = toDataURL br pg,
                                       width = fst viewport, height = snd viewport\<rparr>])
                      (calls @ [(i, totalPages)])))
      else (Inr thumbnails, calls))"
  by pat_completeness auto
termination
  by (relation "measure (\<lambda>(br, pdf, totalPages, i, thumbnails, calls). nat (totalPages + 1 - i))") auto

declare thumbLoop.simps [simp del]

definition generateThumbnails ::
  "'c renderer \<Rightarrow> 'c File \<Rightarrow> (error + PageThumbnail list) \<times> (int \<times> int) list" where
  "generateThumbnails br pdfFile =
     (case getDocument (arrayBuffer pdfFile) of
        Inl e \<Rightarrow> (Inl e, [])
      | Inr pdf \<Rightarrow> thumbLoop br pdf (int (length pdf)) 1 [] [])"

section \<open>Save destination\<close>

text \<open>
  A file handle answers \<^verbatim>\<open>createWritable\<close>, and its stream answers
  \<^verbatim>\<open>write\<close> and \<^verbatim>\<open>close\<close>, each by resolving or rejecting.
\<close>

record FileSystemFileHandle =
  createWritable_ok :: bool
  stream_write_ok :: bool
  stream_close_ok :: bool

datatype picker_answer = Picked FileSystemFileHandle | Rejected string

text \<open>
  The window: whether it has \<^verbatim>\<open>showSaveFilePicker\<close>, and how the picker answers
  (a handle, or a rejection with the \<^verbatim>\<open>name\<close> of the exception).
\<close>

record window =
  has_showSaveFilePicker :: bool
  showSaveFilePicker :: picker_answer

datatype 'c effect =
    PickerShown string
  | ConsoleWarn
  | ConsoleError
  | Alert string
  | MutatorCalled "'c File" "int list"
  | CreateWritableCalled
  | WriteCalled "'c bytes"
  | CloseCalled
  | Downloaded string "'c bytes"

definition endsWith :: "string \<Rightarrow> string \<Rightarrow> bool" where
  "endsWith s t = (length t \<le> length s \<and> drop (length s - length t) s = t)"

definition fullFilename :: "string \<Rightarrow> string" where
  "fullFilename filename = (if endsWith filename ''.pdf'' then filename else filename @ ''.pdf'')"

definition downloadBlob :: "'c bytes \<Rightarrow> string \<Rightarrow> 'c effect list" where
  "downloadBlob data filename = [Downloaded (fullFilename filename) data]"

definition supportsFileSystem :: "window \<Rightarrow> bool" where
  "supportsFileSystem w = has_showSaveFilePicker w"

text \<open>
  \<^verbatim>\<open>getSaveFileHandle\<close> resolves with a handle or \<^verbatim>\<open>null\<close>, or rejects with the
  picker's \<^verbatim>\<open>AbortError\<close>.
\<close>

definition getSaveFileHandle ::
  "window \<Rightarrow> string \<Rightarrow> (error + FileSystemFileHandle option) \<times> 'c effect list" where
  "getSaveFileHandle w filename =
     (if \<not> supportsFileSystem w then (Inr None, [])
      else (case showSaveFilePicker w of
              Picked h \<Rightarrow> (Inr (Some h), [PickerShown (fullFilename filename)])
            | Rejected name \<Rightarrow>
                (if name = ''AbortError''
                 then (Inl (DOMException name), [PickerShown (fullFilename filename)])
                 else (Inr None, [PickerShown (fullFilename filename), ConsoleWarn]))))"

text \<open>
  \<^verbatim>\<open>writePdfToHandle\<close> awaits three calls in a row; a rejected call throws out of
  the function, so the calls after it are not made. The effects are the calls made.
\<close>

definition writePdfToHandle :: "FileSystemFileHandle \<Rightarrow> 'c bytes \<Rightarrow> (error + unit) \<times> 'c effect list" where
  "writePdfToHandle h data =
     (if \<not> createWritable_ok h then (Inl (DOMException ''createWritable''), [CreateWritableCalled])
      else if \<not> stream_write_ok h
        then (Inl (DOMException ''write''), [CreateWritableCalled, WriteCalled data])
      else if \<not> stream_close_ok h
        then (Inl (DOMException ''close''), [CreateWritableCalled, WriteCalled data, CloseCalled])
      else (Inr (), [CreateWritableCalled, WriteCalled data, CloseCalled]))"

fun error_name :: "error \<Rightarrow> string" where
  "error_name (DOMException n) = n"
| "error_name TypeError = ''TypeError''"
| "error_name _ = ''Error''"

section \<open>The selection model\<close>

text \<open>
  A JavaScript \<^verbatim>\<open>Set<number>\<close> keeps its members in insertion order, without
  repetition; \<^verbatim>\<open>Array.from\<close> lists them in that order.
\<close>

definition Set_has :: "int list \<Rightarrow> int \<Rightarrow> bool" where
  "Set_has xs x = (x \<in> set xs)"

definition Set_add :: "int list \<Rightarrow> int \<Rightarrow> int list" where
  "Set_add xs x = (if x \<in> set xs then xs else xs @ [x])"

definition Set_delete :: "int list \<Rightarrow> int \<Rightarrow> int list" where
  "Set_delete xs x = removeAll x xs"

text \<open>The state of the component. The field \<open>file'\<close> is the source's \<^verbatim>\<open>file\<close>.\<close>

record 'c AppState =
  file' :: "'c File option"
  thumbnails :: "PageThumbnail list"
  selectedIndices :: "int list"
  lastSelectedIndex :: "int option"
  isProcessing :: bool
  loadingProgress :: int
  showSaveModal :: bool
  outputFilename :: string

definition initialState :: "'c AppState" where
  "initialState =
     \<lparr>file' = None, thumbnails = [], selectedIndices = [], lastSelectedIndex = None,
      isProcessing = False, loadingProgress = 0, showSaveModal = False, outputFilename = []\<rparr>"

text \<open>The loop \<^verbatim>\<open>for (let i = start; i <= end; i++) newSet.add(i)\<close>.\<close>

function rangeLoop :: "int list \<Rightarrow> int \<Rightarrow> int \<Rightarrow> int list" where
  "rangeLoop newSet i end' = (if i \<le> end' then rangeLoop (Set_add newSet i) (i + 1) end' else newSet)"
  by pat_completeness auto
termination
  by (relation "measure (\<lambda>(newSet, i, end'). nat (end' + 1 - i))") auto

declare rangeLoop.simps [simp del]

definition togglePageSelection :: "int \<Rightarrow> bool \<Rightarrow> 'c AppState \<Rightarrow> 'c AppState" where
  "togglePageSelection idx shiftKey s =
     (case (shiftKey, lastSelectedIndex s) of
        (True, Some l) \<Rightarrow>
          (let start = min l idx; end' = max l idx
           in s\<lparr>selectedIndices := rangeLoop (selectedIndices s) start end'\<rparr>)
      | _ \<Rightarrow>
          s\<lparr>selectedIndices :=
               (if Set_has (selectedIndices s) idx then Set_delete (selectedIndices s) idx
                else Set_add (selectedIndices s) idx),
            lastSelectedIndex := Some idx\<rparr>)"

definition resetApp :: "'c AppState \<Rightarrow> 'c AppState" where
  "resetApp s =
     s\<lparr>file' := None, thumbnails := [], selectedIndices := [], lastSelectedIndex := None,
       loadingProgress := 0, showSaveModal := False, outputFilename := []\<rparr>"

definition openSaveModal :: "'c AppState \<Rightarrow> 'c AppState" where
  "openSaveModal s =
     (if file' s = None \<or> length (selectedIndices s) = 0 then s else s\<lparr>showSaveModal := True\<rparr>)"

section \<open>Loading a document\<close>

text \<open>\<^verbatim>\<open>name.replace(/\.pdf$/i, '')\<close>: a final \<^verbatim>\<open>.pdf\<close>, in any case, is cut off.\<close>

definition stripPdfSuffix :: "string \<Rightarrow> string" where
  "stripPdfSuffix n =
     (case rev n of
        f # d # p # dot # front \<Rightarrow>
          (if dot = CHR ''.'' \<and> (p = CHR ''p'' \<or> p = CHR ''P'') \<and> (d = CHR ''d'' \<or> d = CHR ''D'')
              \<and> (f = CHR ''f'' \<or> f = CHR ''F'')
           then rev front else n)
      | _ \<Rightarrow> n)"

text \<open>
  \<^verbatim>\<open>handleFileSelect\<close> runs up to its \<^verbatim>\<open>await\<close>, and resumes when thumbnail
  generation settles. \<open>percent\<close> stands for
  \<^verbatim>\<open>Math.round((current / total) * 100)\<close>.
\<close>

definition handleFileSelect_begin :: "'c File \<Rightarrow> 'c AppState \<Rightarrow> 'c AppState" where
  "handleFileSelect_begin uploadedFile s =
     s\<lparr>file' := Some uploadedFile, isProcessing := True, loadingProgress := 0,
       outputFilename := stripPdfSuffix (file_name uploadedFile) @ ''_editado''\<rparr>"

definition handleFileSelect_settle ::
  "(error + PageThumbnail list) \<Rightarrow> 'c AppState \<Rightarrow> 'c AppState" where
  "handleFileSelect_settle outcome s =
     (case outcome of
        Inr thumbs \<Rightarrow> s\<lparr>thumbnails := thumbs, isProcessing := False\<rparr>
      | Inl e \<Rightarrow> s\<lparr>file' := None, isProcessing := False\<rparr>)"

definition handleFileSelect ::
  "(int \<Rightarrow> int \<Rightarrow> int) \<Rightarrow> 'c renderer \<Rightarrow> 'c File \<Rightarrow> 'c AppState \<Rightarrow> 'c AppState" where
  "handleFileSelect percent br uploadedFile s =
     (let (outcome, calls) = generateThumbnails br uploadedFile;
          s1 = foldl (\<lambda>st (current, total). st\<lparr>loadingProgress := percent current total\<rparr>)
                 (handleFileSelect_begin uploadedFile s) calls
      in handleFileSelect_settle outcome s1)"

section \<open>The save coordinator\<close>

text \<open>
  Step 2 of \<^verbatim>\<open>handleConfirmSave\<close>: the mutator is called on the file and on
  \<^verbatim>\<open>Array.from(selectedIndices)\<close>, a fresh array; its result goes to the handle
  when there is one, to a download otherwise. A failure is logged and alerted.
\<close>

definition handleConfirmSave_process ::
  "'c File \<Rightarrow> int list \<Rightarrow> string \<Rightarrow> FileSystemFileHandle option \<Rightarrow> 'c effect list" where
  "handleConfirmSave_process f indices filename fileHandle =
     (case fst (removePagesAndSave [indices] f 0) of
        Inl e \<Rightarrow>
          [MutatorCalled f indices, ConsoleError, Alert ''Erro ao salvar o novo PDF.'']
      | Inr newPdfBytes \<Rightarrow>
          (case fileHandle of
             Some h \<Rightarrow>
               (case writePdfToHandle h newPdfBytes of
                  (Inl e, effs) \<Rightarrow>
                    MutatorCalled f indices # effs @ [ConsoleError, Alert ''Erro ao salvar o novo PDF.'']
                | (Inr u, effs) \<Rightarrow> MutatorCalled f indices # effs)
           | None \<Rightarrow> MutatorCalled f indices # downloadBlob newPdfBytes filename))"

definition handleConfirmSave :: "window \<Rightarrow> 'c AppState \<Rightarrow> 'c AppState \<times> 'c effect list" where
  "handleConfirmSave w s =
     (case file' s of
        None \<Rightarrow> (s, [])
      | Some f \<Rightarrow>
          (let s1 = s\<lparr>showSaveModal := False\<rparr>;
               canUseFileSystem = supportsFileSystem w
           in if canUseFileSystem then
                (case getSaveFileHandle w (outputFilename s) of
                   (Inl err, effs) \<Rightarrow>
                     (if error_name err = ''AbortError'' then (s1, effs)
                      else (s1\<lparr>isProcessing := False\<rparr>,
                            effs @ ConsoleWarn #
                              handleConfirmSave_process f (selectedIndices s) (outputFilename s) None))
                 | (Inr fileHandle, effs) \<Rightarrow>
                     (s1\<lparr>isProcessing := False\<rparr>,
                      effs @ handleConfirmSave_process f (selectedIndices s) (outputFilename s) fileHandle))
              else (s1\<lparr>isProcessing := False\<rparr>,
                    handleConfirmSave_process f (selectedIndices s) (outputFilename s) None)))"

section \<open>The session as a transition system\<close>

text \<open>
  The handlers that await are in flight between their steps: a load waits for the
  thumbnails, a save waits for the picker and then for the mutator and the write.
  A session is the component state together with the handlers in flight.
\<close>

datatype 'c task = Loading "'c File" | Picking | Saving

record 'c session =
  ui :: "'c AppState"
  pending :: "'c task list"

definition initialSession :: "'c session" where
  "initialSession = \<lparr>ui = initialState, pending = []\<rparr>"

text \<open>
  \<^verbatim>\<open>handleConfirmSave\<close> up to its first \<^verbatim>\<open>await\<close>: without a file nothing
  happens; otherwise the modal closes and either the picker opens or, when the window has
  no picker, processing starts at once.
\<close>

definition handleConfirmSave_begin :: "window \<Rightarrow> 'c session \<Rightarrow> 'c session" where
  "handleConfirmSave_begin w x =
     (case file' (ui x) of
        None \<Rightarrow> x
      | Some f \<Rightarrow>
          (if supportsFileSystem w
           then \<lparr>ui = (ui x)\<lparr>showSaveModal := False\<rparr>, pending = Picking # pending x\<rparr>
           else \<lparr>ui = (ui x)\<lparr>showSaveModal := False, isProcessing := True\<rparr>,
                 pending = Saving # pending x\<rparr>))"

text \<open>
  A step of the user. The guards are the conditions under which the component renders
  the control: the upload area only without a file and while not processing, the page
  grid only with a file and thumbnails, the reset button only with a file and while not
  processing, the floating button only with a file, a selection and no modal, and enabled
  while not processing, the modal's controls only while the modal shows.
\<close>

inductive user_step :: "'c session \<Rightarrow> 'c session \<Rightarrow> bool" where
  select_file:
    "file' (ui x) = None \<Longrightarrow> \<not> isProcessing (ui x) \<Longrightarrow>
     user_step x \<lparr>ui = handleFileSelect_begin f (ui x), pending = Loading f # pending x\<rparr>"
| toggle_page:
    "file' (ui x) \<noteq> None \<Longrightarrow> t \<in> set (thumbnails (ui x)) \<Longrightarrow>
     user_step x \<lparr>ui = togglePageSelection (index t) shiftKey (ui x), pending = pending x\<rparr>"
| clear_selection:
    "file' (ui x) \<noteq> None \<Longrightarrow> selectedIndices (ui x) \<noteq> [] \<Longrightarrow>
     user_step x \<lparr>ui = (ui x)\<lparr>selectedIndices := []\<rparr>, pending = pending x\<rparr>"
| reset:
    "file' (ui x) \<noteq> None \<Longrightarrow> \<not> isProcessing (ui x) \<Longrightarrow>
     user_step x \<lparr>ui = resetApp (ui x), pending = pending x\<rparr>"
| open_modal:
    "file' (ui x) \<noteq> None \<Longrightarrow> selectedIndices (ui x) \<noteq> [] \<Longrightarrow> \<not> showSaveModal (ui x) \<Longrightarrow>
     \<not> isProcessing (ui x) \<Longrightarrow>
     user_step x \<lparr>ui = openSaveModal (ui x), pending = pending x\<rparr>"
| close_modal:
    "showSaveModal (ui x) \<Longrightarrow>
     user_step x \<lparr>ui = (ui x)\<lparr>showSaveModal := False\<rparr>, pending = pending x\<rparr>"
| edit_filename:
    "showSaveModal (ui x) \<Longrightarrow>
     user_step x \<lparr>ui = (ui x)\<lparr>outputFilename := n\<rparr>, pending = pending x\<rparr>"
| confirm_save:
    "showSaveModal (ui x) \<Longrightarrow> user_step x (handleConfirmSave_begin w x)"

text \<open>
  A step of a handler in flight: a progress call or the settling of a load, the answer of
  the picker (the user's cancellation, or anything else), the end of a save.
\<close>

inductive async_step :: "'c session \<Rightarrow> 'c session \<Rightarrow> bool" where
  load_progress:
    "Loading f \<in> set (pending x) \<Longrightarrow>
     async_step x \<lparr>ui = (ui x)\<lparr>loadingProgress := p\<rparr>, pending = pending x\<rparr>"
| load_settled:
    "Loading f \<in> set (pending x) \<Longrightarrow>
     async_step x \<lparr>ui = handleFileSelect_settle (fst (generateThumbnails br f)) (ui x),
                   pending = remove1 (Loading f) (pending x)\<rparr>"
| picker_aborted:
    "Picking \<in> set (pending x) \<Longrightarrow>
     async_step x \<lparr>ui = ui x, pending = remove1 Picking (pending x)\<rparr>"
| picker_answered:
    "Picking \<in> set (pending x) \<Longrightarrow>
     async_step x \<lparr>ui = (ui x)\<lparr>isProcessing := True\<rparr>, pending = Saving # remove1 Picking (pending x)\<rparr>"
| save_settled:
    "Saving \<in> set (pending x) \<Longrightarrow>
     async_step x \<lparr>ui = (ui x)\<lparr>isProcessing := False\<rparr>, pending = remove1 Saving (pending x)\<rparr>"

text \<open>
  The sessions the component can reach: nothing in the component keeps the user from
  acting while a handler is in flight, beyond the guards above.
\<close>

definition step :: "'c session \<Rightarrow> 'c session \<Rightarrow> bool" where
  "step x y = (user_step x y \<or> async_step x y)"

inductive reachable :: "'c session \<Rightarrow> bool" where
  start: "reachable initialSession"
| after: "reachable x \<Longrightarrow> step x y \<Longrightarrow> reachable y"

text \<open>
  A quiet step: the user does not act on the page while the save picker is open. The
  sessions reached quietly are those reached by quiet steps only.
\<close>

definition quiet_step :: "'c session \<Rightarrow> 'c session \<Rightarrow> bool" where
  "quiet_step x y = (async_step x y \<or> (Picking \<notin> set (pending x) \<and> user_step x y))"

inductive quiet_reachable :: "'c session \<Rightarrow> bool" where
  quiet_start: "quiet_reachable initialSession"
| quiet_after: "quiet_reachable x \<Longrightarrow> quiet_step x y \<Longrightarrow> quiet_reachable y"

text \<open>The page count of the loaded document; without a document there are no pages.\<close>

definition totalPages :: "'c AppState \<Rightarrow> int" where
  "totalPages s =
     (case file' s of
        None \<Rightarrow> 0
      | Some f \<Rightarrow> (case file_bytes f of PdfBytes d \<Rightarrow> int (length d) | NotPdf \<Rightarrow> 0))"

text \<open>What holds of every session reached quietly (shown below).\<close>

definition in_flight_ok :: "'c session \<Rightarrow> bool" where
  "in_flight_ok x =
     (case pending x of
        [] \<Rightarrow> True
      | [Loading f] \<Rightarrow>
          file' (ui x) = Some f \<and> isProcessing (ui x) \<and> thumbnails (ui x) = []
          \<and> selectedIndices (ui x) = [] \<and> lastSelectedIndex (ui x) = None
          \<and> \<not> showSaveModal (ui x)
      | [Picking] \<Rightarrow> file' (ui x) \<noteq> None \<and> \<not> showSaveModal (ui x)
      | [Saving] \<Rightarrow> file' (ui x) \<noteq> None \<and> isProcessing (ui x) \<and> \<not> showSaveModal (ui x)
      | _ \<Rightarrow> False)"

definition no_file_ok :: "'c session \<Rightarrow> bool" where
  "no_file_ok x =
     (file' (ui x) = None \<longrightarrow>
        thumbnails (ui x) = [] \<and> selectedIndices (ui x) = [] \<and> lastSelectedIndex (ui x) = None
        \<and> \<not> showSaveModal (ui x) \<and> pending x = [])"

definition in_range :: "'c AppState \<Rightarrow> int \<Rightarrow> bool" where
  "in_range s i = (0 \<le> i \<and> i < totalPages s)"

definition session_ok :: "'c session \<Rightarrow> bool" where
  "session_ok x =
     ((\<forall>i\<in>set (selectedIndices (ui x)). in_range (ui x) i)
      \<and> (\<forall>l. lastSelectedIndex (ui x) = Some l \<longrightarrow> in_range (ui x) l)
      \<and> (\<forall>t\<in>set (thumbnails (ui x)). in_range (ui x) (index t))
      \<and> no_file_ok x \<and> in_flight_ok x)"

text \<open>Reading aids for the statements about the mutator.\<close>

definition parseable :: "'c File \<Rightarrow> bool" where
  "parseable f = (file_bytes f \<noteq> NotPdf)"

definition pagesOf :: "'c File \<Rightarrow> 'c page list" where
  "pagesOf f = (case file_bytes f of PdfBytes d \<Rightarrow> d | NotPdf \<Rightarrow> [])"

text \<open>The thumbnail pushed for the 1-based page number \<open>i\<close>.\<close>

definition thumbnailOf :: "'c renderer \<Rightarrow> 'c PDFDocument \<Rightarrow> int \<Rightarrow> PageThumbnail" where
  "thumbnailOf br pdf i =
     \<lparr>index = i - 1, url = toDataURL br (pdf ! nat (i - 1)),
      width = fst (getViewport br (pdf ! nat (i - 1))),
      height = snd (getViewport br (pdf ! nat (i - 1)))\<rparr>"

section \<open>Sample inputs\<close>

definition demoFile :: "nat File" where
  "demoFile = \<lparr>file_name = ''a.pdf'', file_bytes = PdfBytes [SourcePage 10, SourcePage 11]\<rparr>"

definition demoRenderer :: "nat renderer" where
  "demoRenderer =
     \<lparr>getPage_ok = (\<lambda>i. True), getContext_2d = (\<lambda>i. True), render_ok = (\<lambda>i. True),
      getViewport = (\<lambda>p. (300, 400)), toDataURL = (\<lambda>p. ''data:image/jpeg'')\<rparr>"

definition demoHandle :: FileSystemFileHandle where
  "demoHandle = \<lparr>createWritable_ok = True, stream_write_ok = True, stream_close_ok = True\<rparr>"

definition demoState :: "nat AppState" where
  "demoState =
     initialState\<lparr>file' := Some demoFile, outputFilename := ''a_editado'', selectedIndices := [1],
       showSaveModal := True\<rparr>"

definition demoSession :: "nat session" where
  "demoSession =
     \<lparr>ui = \<lparr>file' = Some demoFile,
             thumbnails = [\<lparr>index = 0, url = ''data:image/jpeg'', width = 300, height = 400\<rparr>,
                           \<lparr>index = 1, url = ''data:image/jpeg'', width = 300, height = 400\<rparr>],
             selectedIndices = [1], lastSelectedIndex = Some 1, isProcessing = False,
             loadingProgress = 0, showSaveModal = False, outputFilename = ''a_editado''\<rparr>,
      pending = []\<rparr>"

definition threePages :: "nat File" where
  "threePages =
     \<lparr>file_name = ''a.pdf'', file_bytes = PdfBytes [SourcePage 10, SourcePage 11, SourcePage 12]\<rparr>"

definition onePage :: "nat File" where
  "onePage = \<lparr>file_name = ''c.pdf'', file_bytes = PdfBytes [SourcePage 20]\<rparr>"

definition demoThumb :: "int \<Rightarrow> PageThumbnail" where
  "demoThumb i = \<lparr>index = i, url = ''data:image/jpeg'', width = 300, height = 400\<rparr>"

text \<open>
  A component state by its file, thumbnails, selection, last-touched index, processing
  flag, modal flag and output name (the progress is 0).
\<close>

definition mkState ::
  "nat File option \<Rightarrow> PageThumbnail list \<Rightarrow> int list \<Rightarrow> int option \<Rightarrow> bool \<Rightarrow> bool \<Rightarrow> string
   \<Rightarrow> nat AppState" where
  "mkState f ts sel l p m n =
     \<lparr>file' = f, thumbnails = ts, selectedIndices = sel, lastSelectedIndex = l,
      isProcessing = p, loadingProgress = 0, showSaveModal = m, outputFilename = n\<rparr>"

definition raceSession :: "nat session" where
  "raceSession =
     \<lparr>ui = mkState (Some onePage) [demoThumb 0] [2] (Some 2) False False ''c_editado'',
      pending = []\<rparr>"

section \<open>Sorting\<close>

lemma insert_by_asc: "insert_by (\<lambda>a b. a - b) (x::int) ys = insort x ys"
  by (induction ys) auto

lemma js_sort_asc: "js_sort (\<lambda>a b. a - b) (xs::int list) = sort xs"
  by (induction xs) (auto simp: js_sort_def insert_by_asc)

lemma mset_insert_by: "mset (insert_by cmp x ys) = add_mset x (mset ys)"
  by (induction ys) auto

lemma set_insert_by: "set (insert_by cmp x ys) = insert x (set ys)"
  by (induction ys) auto

lemma sorted_insert_by_desc:
  "sorted_wrt (\<lambda>a b. a \<ge> b) ys \<Longrightarrow> sorted_wrt (\<lambda>a b. a \<ge> b) (insert_by (\<lambda>a b. b - a) (x::int) ys)"
  by (induction ys) (auto simp: set_insert_by)

lemma mset_js_sort: "mset (js_sort cmp xs) = mset xs"
  by (induction xs) (auto simp: js_sort_def mset_insert_by)

lemma sorted_js_sort_desc: "sorted_wrt (\<lambda>a b. a \<ge> b) (js_sort (\<lambda>a b. b - a) (xs::int list))"
  by (induction xs) (auto simp: js_sort_def sorted_insert_by_desc)

lemma js_sort_desc: "js_sort (\<lambda>a b. b - a) (xs::int list) = rev (sort xs)"
proof -
  let ?ys = "js_sort (\<lambda>a b. b - a) xs"
  have "sorted (rev ?ys)"
    using sorted_js_sort_desc[of xs] by (simp add: sorted_wrt_rev)
  moreover have "mset (rev ?ys) = mset xs" by (simp add: mset_js_sort)
  ultimately have "sort xs = rev ?ys"
    by (metis properties_for_sort)
  then show ?thesis by (metis rev_rev_ident)
qed

lemma strict_desc: "distinct (xs::int list) \<Longrightarrow> sorted_wrt (\<lambda>a b. a > b) (rev (sort xs))"
proof -
  assume "distinct xs"
  then have "sorted_wrt (<) (sort xs)" by (simp add: strict_sorted_iff)
  then show ?thesis by (simp add: sorted_wrt_rev)
qed

lemma sort_mset_eq: "mset xs = mset ys \<Longrightarrow> sort xs = sort (ys::int list)"
  by (metis properties_for_sort sorted_sort mset_sort)

section \<open>Sublists by position\<close>

lemma nths_cong_below:
  "(\<And>i. i < length xs \<Longrightarrow> i \<in> A \<longleftrightarrow> i \<in> B) \<Longrightarrow> nths xs A = nths xs B"
proof -
  assume h: "\<And>i. i < length xs \<Longrightarrow> i \<in> A \<longleftrightarrow> i \<in> B"
  have "filter (\<lambda>p. snd p \<in> A) (zip xs [0..<length xs]) = filter (\<lambda>p. snd p \<in> B) (zip xs [0..<length xs])"
    by (rule filter_cong) (auto dest!: set_zip_rightD simp: h)
  then show ?thesis by (simp add: nths_def)
qed

lemma nths_remove_one:
  assumes n: "n < length d" and below: "\<forall>r\<in>R. r < int n"
  shows "nths (take n d @ drop (Suc n) d) {j. int j \<notin> R} = nths d {j. int j \<notin> insert (int n) R}"
proof -
  define A where "A = {j. int j \<notin> R}"
  define B where "B = {j. int j \<notin> insert (int n) R}"
  have A_above: "\<And>j. n \<le> j \<Longrightarrow> j \<in> A" using below by (auto simp: A_def)
  have B_above: "\<And>j. n < j \<Longrightarrow> j \<in> B" using below by (auto simp: B_def)
  have nB: "n \<notin> B" by (simp add: B_def)
  have AB: "\<And>j. j < n \<Longrightarrow> j \<in> A \<longleftrightarrow> j \<in> B" by (auto simp: A_def B_def)
  have len: "length (take n d) = n" using n by simp
  have tailA: "nths (drop (Suc n) d) {j. j + n \<in> A} = drop (Suc n) d"
    by (rule nths_all) (simp add: A_above)
  have tailB: "nths (drop (Suc n) d) {j. Suc j \<in> {j. j + n \<in> B}} = drop (Suc n) d"
    by (rule nths_all) (simp add: B_above)
  have front: "nths (take n d) A = nths (take n d) B"
    by (rule nths_cong_below) (simp add: AB)
  have lhs: "nths (take n d @ drop (Suc n) d) A = nths (take n d) A @ drop (Suc n) d"
    unfolding nths_append len tailA ..
  have mid: "nths (d ! n # drop (Suc n) d) {j. j + n \<in> B} = drop (Suc n) d"
    unfolding nths_Cons tailB using nB by simp
  have "nths d B = nths (take n d @ d ! n # drop (Suc n) d) B"
    using n by (simp add: id_take_nth_drop[symmetric])
  also have "\<dots> = nths (take n d) B @ drop (Suc n) d"
    unfolding nths_append len mid ..
  finally show ?thesis using lhs front unfolding A_def B_def by simp
qed

lemma length_nths_excised:
  assumes "distinct (is::int list)" "\<forall>i\<in>set is. 0 \<le> i \<and> i < int (length d)"
  shows "length (nths d {j. int j \<notin> set is}) = length d - length is"
proof -
  have eq: "{i. i < length d \<and> i \<in> {j. int j \<notin> set is}} = {..<length d} - nat ` set is"
    using assms(2) by (auto simp: image_iff) (metis nat_int)
  have sub: "nat ` set is \<subseteq> {..<length d}" using assms(2) by auto
  have inj: "inj_on nat (set is)"
    using assms(2) by (auto intro!: inj_onI simp: eq_nat_nat_iff)
  have c: "card (nat ` set is) = length is"
    using inj assms(1) by (simp add: card_image distinct_card)
  have "length (nths d {j. int j \<notin> set is}) = card ({..<length d} - nat ` set is)"
    unfolding length_nths eq ..
  also have "\<dots> = card {..<length d} - card (nat ` set is)"
    using sub by (intro card_Diff_subset) (auto intro: finite_subset)
  finally show ?thesis using c by simp
qed

section \<open>Removing pages\<close>

lemma removeLoop_descending:
  "sorted_wrt (\<lambda>a b. a > b) is \<Longrightarrow> \<forall>i\<in>set is. 0 \<le> i \<and> i < int (length d) \<Longrightarrow>
   removeLoop d is = Inr (nths d {j. int j \<notin> set is})"
proof (induction "is" arbitrary: d)
  case Nil
  then show ?case by (simp add: nths_all)
next
  case (Cons i rest)
  let ?n = "nat i"
  let ?d' = "take ?n d @ drop (Suc ?n) d"
  from Cons.prems have i: "0 \<le> i" "i < int (length d)" by auto
  then have n: "?n < length d" by simp
  have rp: "removePage d i = Inr ?d'"
    using i by (auto simp: removePage_def getPageCount_def)
  have below: "\<forall>r\<in>set rest. r < int ?n" using Cons.prems i by auto
  have len: "length ?d' = length d - 1" using n by simp
  have rng: "\<forall>r\<in>set rest. 0 \<le> r \<and> r < int (length ?d')"
  proof
    fix r assume r: "r \<in> set rest"
    then have "0 \<le> r" "r < i" using Cons.prems by auto
    then show "0 \<le> r \<and> r < int (length ?d')" using i len by linarith
  qed
  have "removeLoop ?d' rest = Inr (nths ?d' {j. int j \<notin> set rest})"
    using Cons.IH[OF _ rng] Cons.prems(1) by simp
  also have "nths ?d' {j. int j \<notin> set rest} = nths d {j. int j \<notin> insert (int ?n) (set rest)}"
    by (rule nths_remove_one[OF n below])
  finally show ?case using rp i by simp
qed

lemma removePagesAndSave_fst:
  "file_bytes f = PdfBytes d \<Longrightarrow>
   fst (removePagesAndSave h f r) =
     (case removeLoop d (rev (sort (h ! r))) of Inl e \<Rightarrow> Inl e | Inr d' \<Rightarrow> Inr (save d'))"
  by (simp add: removePagesAndSave_def PDFDocument_load_def arrayBuffer_def array_spread_def
      array_sort_def js_sort_desc split: sum.splits)

lemma removePagesAndSave_snd:
  "snd (removePagesAndSave h f r) =
     (case file_bytes f of NotPdf \<Rightarrow> h | PdfBytes d \<Rightarrow> h @ [rev (sort (h ! r))])"
  by (simp add: removePagesAndSave_def PDFDocument_load_def arrayBuffer_def array_spread_def
      array_sort_def js_sort_desc Let_def split: sum.splits bytes.splits)

text \<open>
  \<^bold>\<open>C1.\<close> For an \<open>N\<close>-page document given as bytes and a list \<open>S\<close> of distinct, in-range
  page indices, \<open>removePagesAndSave\<close> loads the document from the bytes, sorts a copy of
  \<open>S\<close> into strictly descending order, and removes the pages in that order; the pages
  left are the original ones with the members of \<open>S\<close> excised, in the original order, and
  there are \<open>N - |S|\<close> of them. The saved output holds exactly these pages when \<open>S\<close>
  leaves at least one page; when \<open>S\<close> names every page, \<open>save\<close> puts its default blank
  page into the empty document and the output has that one page.
\<close>

theorem removePagesAndSave_excises:
  assumes "file_bytes f = PdfBytes d" and "r < length h" and "distinct (h ! r)"
    and "\<forall>i\<in>set (h ! r). 0 \<le> i \<and> i < int (length d)"
  shows "snd (removePagesAndSave h f r) ! length h = rev (sort (h ! r))
       \<and> sorted_wrt (\<lambda>a b. a > b) (rev (sort (h ! r)))
       \<and> removeLoop d (rev (sort (h ! r))) = Inr (nths d {j. int j \<notin> set (h ! r)})
       \<and> length (nths d {j. int j \<notin> set (h ! r)}) = length d - length (h ! r)
       \<and> fst (removePagesAndSave h f r) =
           Inr (if length (h ! r) < length d then PdfBytes (nths d {j. int j \<notin> set (h ! r)})
                else PdfBytes [BlankPage])"
proof -
  let ?S = "rev (sort (h ! r))"
  let ?rest = "nths d {j. int j \<notin> set (h ! r)}"
  have desc: "sorted_wrt (\<lambda>a b. a > b) ?S" using assms(3) by (rule strict_desc)
  have rng: "\<forall>i\<in>set ?S. 0 \<le> i \<and> i < int (length d)" using assms(4) by simp
  have loop: "removeLoop d ?S = Inr ?rest"
    using removeLoop_descending[OF desc rng] by simp
  have len: "length ?rest = length d - length (h ! r)"
    using assms(3,4) by (rule length_nths_excised)
  have copy: "snd (removePagesAndSave h f r) ! length h = ?S"
    using assms(1) by (simp add: removePagesAndSave_snd)
  have "fst (removePagesAndSave h f r) = Inr (save ?rest)"
    using assms(1) loop by (simp add: removePagesAndSave_fst)
  moreover have "save ?rest = (if length (h ! r) < length d then PdfBytes ?rest else PdfBytes [BlankPage])"
    using len by (auto simp: save_def getPageCount_def addPage_def)
  ultimately show ?thesis using desc loop len copy by simp
qed

theorem removePagesAndSave_excises_witness:
  "fst (removePagesAndSave [[2, 0]]
         \<lparr>file_name = ''a.pdf'',
          file_bytes = PdfBytes [SourcePage (10::nat), SourcePage 11, SourcePage 12, SourcePage 13]\<rparr> 0)
     = Inr (PdfBytes [SourcePage 11, SourcePage 13])
   \<and> snd (removePagesAndSave [[2, 0]]
         \<lparr>file_name = ''a.pdf'',
          file_bytes = PdfBytes [SourcePage (10::nat), SourcePage 11, SourcePage 12, SourcePage 13]\<rparr> 0) ! 1
     = [2, 0]"
  using removePagesAndSave_excises
    [of "\<lparr>file_name = ''a.pdf'',
          file_bytes = PdfBytes [SourcePage (10::nat), SourcePage 11, SourcePage 12, SourcePage 13]\<rparr>"
        "[SourcePage 10, SourcePage 11, SourcePage 12, SourcePage 13]" 0 "[[2, 0]]"]
  by (simp add: nths_Cons)

text \<open>
  Removing both pages of a two-page document does not give a document with
  \<open>2 - 2 = 0\<close> pages: the output holds one blank page.
\<close>

theorem removePagesAndSave_all_pages_counterexample:
  "fst (removePagesAndSave [[0, 1]]
         \<lparr>file_name = ''a.pdf'', file_bytes = PdfBytes [SourcePage (10::nat), SourcePage 11]\<rparr> 0)
     = Inr (PdfBytes [BlankPage])
   \<and> length [BlankPage :: nat page] \<noteq> length [SourcePage (10::nat), SourcePage 11] - length [0::int, 1]"
  by (simp add: removePagesAndSave_def PDFDocument_load_def arrayBuffer_def array_spread_def
      array_sort_def js_sort_def removePage_def getPageCount_def save_def addPage_def)

section \<open>Extracting pages\<close>

lemma copyPages_in_range:
  "\<forall>i\<in>set is. 0 \<le> i \<and> i < int (length src) \<Longrightarrow> copyPages src is = Inr (map (\<lambda>i. src ! nat i) is)"
  by (induction "is") auto

lemma extractLoop_in_range:
  "\<forall>i\<in>set is. 0 \<le> i \<and> i < int (length d) \<Longrightarrow>
   extractLoop d acc is = Inr (acc @ map (\<lambda>i. d ! nat i) is)"
  by (induction "is" arbitrary: acc) (auto simp: addPage_def)

lemma extractPagesAndSave_fst:
  "file_bytes f = PdfBytes d \<Longrightarrow>
   fst (extractPagesAndSave h f r) =
     (case extractLoop d [] (sort (h ! r)) of Inl e \<Rightarrow> Inl e | Inr d' \<Rightarrow> Inr (save d'))"
  by (simp add: extractPagesAndSave_def PDFDocument_load_def arrayBuffer_def array_spread_def
      array_sort_def js_sort_asc PDFDocument_create_def Let_def split: sum.splits)

lemma extractPagesAndSave_snd:
  "snd (extractPagesAndSave h f r) =
     (case file_bytes f of NotPdf \<Rightarrow> h | PdfBytes d \<Rightarrow> h @ [sort (h ! r)])"
  by (simp add: extractPagesAndSave_def PDFDocument_load_def arrayBuffer_def array_spread_def
      array_sort_def js_sort_asc Let_def split: sum.splits bytes.splits)

text \<open>
  \<^bold>\<open>C2.\<close> For a document given as bytes and a list \<open>S\<close> of in-range page indices, supplied
  in any order, the pages \<open>extractPagesAndSave\<close> copies are those of \<open>S\<close> sorted ascending
  (strictly ascending when \<open>S\<close> is distinct), so there are \<open>|S|\<close> of them, and every
  reordering of \<open>S\<close> gives the same output. The saved output holds exactly these pages when
  \<open>S\<close> is not empty; for the empty \<open>S\<close> the output is \<open>save\<close>'s single default blank page.
\<close>

theorem extractPagesAndSave_sorted:
  assumes "file_bytes f = PdfBytes d" and "r < length h"
    and "\<forall>i\<in>set (h ! r). 0 \<le> i \<and> i < int (length d)"
  shows "fst (extractPagesAndSave h f r) =
           Inr (if h ! r = [] then PdfBytes [BlankPage]
                else PdfBytes (map (\<lambda>i. d ! nat i) (sort (h ! r))))
       \<and> length (map (\<lambda>i. d ! nat i) (sort (h ! r))) = length (h ! r)
       \<and> (distinct (h ! r) \<longrightarrow> sorted_wrt (\<lambda>a b. a < b) (sort (h ! r)))
       \<and> (\<forall>h' r'. mset (h' ! r') = mset (h ! r) \<longrightarrow>
             fst (extractPagesAndSave h' f r') = fst (extractPagesAndSave h f r))"
proof -
  have loop: "\<And>xs. mset xs = mset (h ! r) \<Longrightarrow>
      extractLoop d [] (sort xs) = Inr (map (\<lambda>i. d ! nat i) (sort (h ! r)))"
  proof -
    fix xs :: "int list" assume m: "mset xs = mset (h ! r)"
    then have s: "sort xs = sort (h ! r)" by (rule sort_mset_eq)
    have "\<forall>i\<in>set (sort (h ! r)). 0 \<le> i \<and> i < int (length d)" using assms(3) by simp
    from extractLoop_in_range[OF this, of "[]"] s
    show "extractLoop d [] (sort xs) = Inr (map (\<lambda>i. d ! nat i) (sort (h ! r)))" by simp
  qed
  have res: "\<And>h' r'. mset (h' ! r') = mset (h ! r) \<Longrightarrow>
      fst (extractPagesAndSave h' f r') = Inr (save (map (\<lambda>i. d ! nat i) (sort (h ! r))))"
    using assms(1) loop by (simp add: extractPagesAndSave_fst)
  have sv: "save (map (\<lambda>i. d ! nat i) (sort (h ! r))) =
        (if h ! r = [] then PdfBytes [BlankPage] else PdfBytes (map (\<lambda>i. d ! nat i) (sort (h ! r))))"
    by (auto simp: save_def getPageCount_def addPage_def)
  have st: "distinct (h ! r) \<longrightarrow> sorted_wrt (\<lambda>a b. a < b) (sort (h ! r))"
    by (simp add: strict_sorted_iff)
  show ?thesis using res[of h r] res sv st by simp
qed

theorem extractPagesAndSave_sorted_witness:
  "fst (extractPagesAndSave [[3, 0, 1]]
         \<lparr>file_name = ''a.pdf'',
          file_bytes = PdfBytes [SourcePage (10::nat), SourcePage 11, SourcePage 12, SourcePage 13, SourcePage 14]\<rparr> 0)
     = Inr (PdfBytes [SourcePage 10, SourcePage 11, SourcePage 13])"
  using extractPagesAndSave_sorted
    [of "\<lparr>file_name = ''a.pdf'',
          file_bytes = PdfBytes [SourcePage (10::nat), SourcePage 11, SourcePage 12, SourcePage 13, SourcePage 14]\<rparr>"
        "[SourcePage 10, SourcePage 11, SourcePage 12, SourcePage 13, SourcePage 14]" 0 "[[3, 0, 1]]"]
  by simp

text \<open>Extracting no page does not give a document with \<open>|S| = 0\<close> pages.\<close>

theorem extractPagesAndSave_empty_counterexample:
  "fst (extractPagesAndSave [[]]
         \<lparr>file_name = ''a.pdf'', file_bytes = PdfBytes [SourcePage (10::nat), SourcePage 11]\<rparr> 0)
     = Inr (PdfBytes [BlankPage])
   \<and> length [BlankPage :: nat page] \<noteq> length ([] :: int list)"
  by (simp add: extractPagesAndSave_def PDFDocument_load_def arrayBuffer_def array_spread_def
      array_sort_def js_sort_def getPageCount_def save_def addPage_def PDFDocument_create_def)

section \<open>Merging documents\<close>

lemma copyPages_all: "copyPages d (getPageIndices d) = Inr d"
proof -
  have "\<forall>i\<in>set (getPageIndices d). 0 \<le> i \<and> i < int (length d)"
    by (auto simp: getPageIndices_def getPageCount_def)
  from copyPages_in_range[OF this]
  have "copyPages d (getPageIndices d) = Inr (map (\<lambda>i. d ! nat i) (getPageIndices d))" .
  also have "map (\<lambda>i. d ! nat i) (getPageIndices d) = map ((!) d) [0..<length d]"
    by (simp add: getPageIndices_def getPageCount_def comp_def)
  also have "\<dots> = d" by (rule map_nth)
  finally show ?thesis .
qed

lemma foldl_addPage: "foldl addPage acc ps = acc @ ps"
  by (induction ps arbitrary: acc) (auto simp: addPage_def)

lemma mergeLoop_parseable:
  "\<forall>f\<in>set files. parseable f \<Longrightarrow> mergeLoop acc files = Inr (acc @ concat (map pagesOf files))"
proof (induction files arbitrary: acc)
  case Nil
  then show ?case by simp
next
  case (Cons f files)
  then obtain d where d: "file_bytes f = PdfBytes d"
    by (cases "file_bytes f") (auto simp: parseable_def)
  then show ?case using Cons
    by (simp add: PDFDocument_load_def arrayBuffer_def copyPages_all foldl_addPage pagesOf_def)
qed

text \<open>
  \<^bold>\<open>C3.\<close> For a list of parseable input files, the pages \<open>mergePdfs\<close> collects are the
  concatenation of the inputs' pages, each input in its own page order, in list order, and
  their number is the sum of the inputs' page counts. The saved output holds exactly these
  pages when there is at least one; when the inputs hold no page at all the output is
  \<open>save\<close>'s single default blank page.
\<close>

theorem mergePdfs_concatenates:
  assumes "\<forall>f\<in>set files. parseable f"
  shows "mergePdfs files =
           Inr (if concat (map pagesOf files) = [] then PdfBytes [BlankPage]
                else PdfBytes (concat (map pagesOf files)))
       \<and> length (concat (map pagesOf files)) = sum_list (map (\<lambda>f. length (pagesOf f)) files)"
proof -
  have "mergeLoop [] files = Inr (concat (map pagesOf files))"
    using mergeLoop_parseable[OF assms, of "[]"] by simp
  then have "mergePdfs files = Inr (save (concat (map pagesOf files)))"
    by (simp add: mergePdfs_def PDFDocument_create_def)
  moreover have "save (concat (map pagesOf files)) =
      (if concat (map pagesOf files) = [] then PdfBytes [BlankPage] else PdfBytes (concat (map pagesOf files)))"
    by (simp add: save_def getPageCount_def addPage_def)
  ultimately show ?thesis by (simp add: length_concat comp_def)
qed

theorem mergePdfs_concatenates_witness:
  "mergePdfs [\<lparr>file_name = ''A.pdf'', file_bytes = PdfBytes [SourcePage (0::nat), SourcePage 1]\<rparr>,
              \<lparr>file_name = ''B.pdf'', file_bytes = PdfBytes [SourcePage 10, SourcePage 11, SourcePage 12]\<rparr>]
     = Inr (PdfBytes [SourcePage 0, SourcePage 1, SourcePage 10, SourcePage 11, SourcePage 12])"
  using mergePdfs_concatenates
    [of "[\<lparr>file_name = ''A.pdf'', file_bytes = PdfBytes [SourcePage (0::nat), SourcePage 1]\<rparr>,
          \<lparr>file_name = ''B.pdf'', file_bytes = PdfBytes [SourcePage 10, SourcePage 11, SourcePage 12]\<rparr>]"]
  by (simp add: parseable_def pagesOf_def)

text \<open>
  Merging no file, or two files without pages, gives a one-page document, not one with
  as many pages as the inputs have together (none).
\<close>

theorem mergePdfs_no_pages_counterexample:
  "mergePdfs ([] :: nat File list) = Inr (PdfBytes [BlankPage])
   \<and> mergePdfs [\<lparr>file_name = ''A.pdf'', file_bytes = PdfBytes ([] :: nat page list)\<rparr>,
                \<lparr>file_name = ''B.pdf'', file_bytes = PdfBytes []\<rparr>] = Inr (PdfBytes [BlankPage])
   \<and> length [BlankPage :: nat page] \<noteq> sum_list (map (\<lambda>f. length (pagesOf f)) ([] :: nat File list))"
  by (simp add: mergePdfs_def PDFDocument_create_def save_def getPageCount_def addPage_def
      PDFDocument_load_def arrayBuffer_def getPageIndices_def)

section \<open>The caller's array\<close>

text \<open>
  \<^bold>\<open>C10.\<close> \<open>removePagesAndSave\<close> and \<open>extractPagesAndSave\<close> leave the caller's array of
  page indices as it was: they sort a fresh copy, so after either call every array that
  was in the heap before, the argument among them, holds the same elements in the same
  order.
\<close>

theorem argument_array_unchanged:
  assumes "r < length h"
  shows "take (length h) (snd (removePagesAndSave h f r)) = h
       \<and> snd (removePagesAndSave h f r) ! r = h ! r
       \<and> take (length h) (snd (extractPagesAndSave h f r)) = h
       \<and> snd (extractPagesAndSave h f r) ! r = h ! r"
  using assms
  by (simp add: removePagesAndSave_snd extractPagesAndSave_snd nth_append split: bytes.splits)

theorem argument_array_unchanged_witness:
  "snd (removePagesAndSave [[3, 0, 1]]
         \<lparr>file_name = ''a.pdf'',
          file_bytes = PdfBytes [SourcePage (10::nat), SourcePage 11, SourcePage 12, SourcePage 13]\<rparr> 0) ! 0
     = [3, 0, 1]
   \<and> snd (extractPagesAndSave [[3, 0, 1]]
         \<lparr>file_name = ''a.pdf'',
          file_bytes = PdfBytes [SourcePage (10::nat), SourcePage 11, SourcePage 12, SourcePage 13]\<rparr> 0) ! 0
     = [3, 0, 1]"
  using argument_array_unchanged
    [of 0 "[[3, 0, 1]]" "\<lparr>file_name = ''a.pdf'',
          file_bytes = PdfBytes [SourcePage (10::nat), SourcePage 11, SourcePage 12, SourcePage 13]\<rparr>"]
  by simp

text \<open>
  Sorting the argument itself would have reordered it; the copy is what keeps it intact.
\<close>

lemma array_sort_in_place:
  "array_sort (\<lambda>a b. a - b) [[3, 0, 1]] 0 = [[0, 1, 3]]
   \<and> fst (array_spread [[3, 0, 1]] 0) ! 0 = [3, 0, 1]"
  by (simp add: array_sort_def array_spread_def js_sort_def)

section \<open>Thumbnails\<close>

lemma thumbLoop_filter:
  "\<forall>j. i \<le> j \<and> j \<le> N \<longrightarrow> getPage_ok br j \<and> render_ok br j \<Longrightarrow>
   thumbLoop br pdf N i acc calls =
     (Inr (acc @ map (thumbnailOf br pdf) (filter (getContext_2d br) [i..N])),
      calls @ map (\<lambda>j. (j, N)) (filter (getContext_2d br) [i..N]))"
proof (induction br pdf N i acc calls rule: thumbLoop.induct)
  case (1 br pdf totalPages i thumbnails calls)
  show ?case
  proof (cases "i \<le> totalPages")
    case False
    then show ?thesis by (subst thumbLoop.simps) simp
  next
    case True
    then have ok: "getPage_ok br i" "render_ok br i" using "1.prems" by auto
    have rest: "\<forall>j. i + 1 \<le> j \<and> j \<le> totalPages \<longrightarrow> getPage_ok br j \<and> render_ok br j"
      using "1.prems" by auto
    have up: "[i..totalPages] = i # [i + 1..totalPages]" using True by (simp add: upto_rec1)
    show ?thesis
    proof (cases "getContext_2d br i")
      case False
      then show ?thesis
        using True ok "1.IH"(1)[OF True _ refl refl _ rest] up
        by (subst thumbLoop.simps) (simp add: Let_def)
    next
      case c: True
      then show ?thesis
        using True ok "1.IH"(2)[OF True _ refl refl _ _ rest] up
        by (subst thumbLoop.simps) (simp add: Let_def thumbnailOf_def)
    qed
  qed
qed

lemma upto_shift: "map (\<lambda>i. i - 1) [a..b] = [a - 1..b - 1]"
proof (induction a b rule: upto.induct)
  case (1 i j)
  show ?case
  proof (cases "i \<le> j")
    case True
    then have "[i..j] = i # [i + 1..j]" "[i - 1..j - 1] = (i - 1) # [i..j - 1]"
      by (simp_all add: upto_rec1)
    then show ?thesis using 1[OF True] by simp
  next
    case False
    then show ?thesis by simp
  qed
qed

lemma index_thumbnailOf: "index (thumbnailOf br pdf i) = i - 1"
  by (simp add: thumbnailOf_def)

lemma thumbLoop_indices:
  "thumbLoop br pdf N i acc calls = (Inr ts, c) \<Longrightarrow> 1 \<le> i \<Longrightarrow>
   \<forall>t\<in>set acc. 0 \<le> index t \<and> index t < N \<Longrightarrow>
   \<forall>t\<in>set ts. 0 \<le> index t \<and> index t < N"
proof (induction br pdf N i acc calls rule: thumbLoop.induct)
  case (1 br pdf totalPages i thumbnails calls)
  from "1.prems"(1) show ?case
    apply (subst (asm) thumbLoop.simps)
    using "1.IH" "1.prems"(2,3)
    apply (auto simp: Let_def split: if_splits)
    done
qed

lemma generateThumbnails_indices:
  assumes "fst (generateThumbnails br f) = Inr ts"
  shows "\<exists>d. file_bytes f = PdfBytes d \<and> (\<forall>t\<in>set ts. 0 \<le> index t \<and> index t < int (length d))"
proof (cases "file_bytes f")
  case (PdfBytes d)
  obtain r c where rc: "thumbLoop br d (int (length d)) 1 [] [] = (r, c)" by (cases "thumbLoop br d (int (length d)) 1 [] []")
  with assms PdfBytes have "r = Inr ts"
    by (simp add: generateThumbnails_def getDocument_def arrayBuffer_def)
  with rc have "\<forall>t\<in>set ts. 0 \<le> index t \<and> index t < int (length d)"
    by (intro thumbLoop_indices[of br d "int (length d)" 1 "[]" "[]" ts c]) auto
  with PdfBytes show ?thesis by simp
next
  case NotPdf
  with assms show ?thesis
    by (simp add: generateThumbnails_def getDocument_def arrayBuffer_def)
qed

text \<open>
  \<^bold>\<open>C7.\<close> When the buffer cannot be opened, \<open>generateThumbnails\<close> fails with the
  decoder's error, with no thumbnail and no progress call. When it opens with \<open>N\<close> pages
  and every page is fetched and renders, the thumbnails are those of the pages whose
  canvas yields a 2D context, in ascending page order, with one call
  \<open>onProgress(i, N)\<close> after each such page \<open>i\<close>; a page without a context is skipped.
  When moreover every page has a context, there are exactly \<open>N\<close> thumbnails, with the
  indices \<open>0..N-1\<close> in ascending order, and the progress calls are
  \<open>(1, N), ..., (N, N)\<close>.
\<close>

theorem generateThumbnails_pages:
  "(file_bytes f = NotPdf \<longrightarrow> generateThumbnails br f = (Inl ParseError, []))
   \<and> (file_bytes f = PdfBytes d
        \<and> (\<forall>j. 1 \<le> j \<and> j \<le> int (length d) \<longrightarrow> getPage_ok br j \<and> render_ok br j) \<longrightarrow>
        generateThumbnails br f =
          (Inr (map (thumbnailOf br d) (filter (getContext_2d br) [1..int (length d)])),
           map (\<lambda>j. (j, int (length d))) (filter (getContext_2d br) [1..int (length d)])))
   \<and> (file_bytes f = PdfBytes d
        \<and> (\<forall>j. 1 \<le> j \<and> j \<le> int (length d) \<longrightarrow>
               getPage_ok br j \<and> getContext_2d br j \<and> render_ok br j) \<longrightarrow>
        (\<exists>thumbs. generateThumbnails br f = (Inr thumbs, map (\<lambda>j. (j, int (length d))) [1..int (length d)])
           \<and> thumbs = map (thumbnailOf br d) [1..int (length d)]
           \<and> length thumbs = length d
           \<and> map index thumbs = [0..int (length d) - 1]))"
proof (intro conjI impI)
  assume "file_bytes f = NotPdf"
  then show "generateThumbnails br f = (Inl ParseError, [])"
    by (simp add: generateThumbnails_def getDocument_def arrayBuffer_def)
next
  assume a: "file_bytes f = PdfBytes d
    \<and> (\<forall>j. 1 \<le> j \<and> j \<le> int (length d) \<longrightarrow> getPage_ok br j \<and> render_ok br j)"
  then show "generateThumbnails br f =
          (Inr (map (thumbnailOf br d) (filter (getContext_2d br) [1..int (length d)])),
           map (\<lambda>j. (j, int (length d))) (filter (getContext_2d br) [1..int (length d)]))"
    using thumbLoop_filter[of 1 "int (length d)" br d "[]" "[]"]
    by (simp add: generateThumbnails_def getDocument_def arrayBuffer_def)
next
  assume a: "file_bytes f = PdfBytes d
    \<and> (\<forall>j. 1 \<le> j \<and> j \<le> int (length d) \<longrightarrow>
               getPage_ok br j \<and> getContext_2d br j \<and> render_ok br j)"
  then have all: "filter (getContext_2d br) [1..int (length d)] = [1..int (length d)]"
    by (auto simp: filter_id_conv)
  have "generateThumbnails br f =
          (Inr (map (thumbnailOf br d) [1..int (length d)]),
           map (\<lambda>j. (j, int (length d))) [1..int (length d)])"
    using a thumbLoop_filter[of 1 "int (length d)" br d "[]" "[]"] all
    by (simp add: generateThumbnails_def getDocument_def arrayBuffer_def)
  moreover have "map index (map (thumbnailOf br d) [1..int (length d)]) = [0..int (length d) - 1]"
    using upto_shift[of 1 "int (length d)"] by (simp add: comp_def index_thumbnailOf)
  ultimately show "\<exists>thumbs. generateThumbnails br f = (Inr thumbs, map (\<lambda>j. (j, int (length d))) [1..int (length d)])
           \<and> thumbs = map (thumbnailOf br d) [1..int (length d)]
           \<and> length thumbs = length d
           \<and> map index thumbs = [0..int (length d) - 1]"
    by simp
qed

theorem generateThumbnails_pages_witness:
  "map index (projr (fst (generateThumbnails demoRenderer demoFile))) = [0, 1]
   \<and> snd (generateThumbnails demoRenderer demoFile) = [(1, 2), (2, 2)]
   \<and> generateThumbnails demoRenderer (demoFile\<lparr>file_bytes := NotPdf\<rparr>) = (Inl ParseError, [])"
  using generateThumbnails_pages[of demoFile demoRenderer "[SourcePage 10, SourcePage 11]"]
    generateThumbnails_pages[of "demoFile\<lparr>file_bytes := NotPdf\<rparr>" demoRenderer "[]"]
  by (auto simp: demoFile_def demoRenderer_def upto_rec1)

text \<open>
  A two-page document opens, but the canvas of page 1 yields no context: one thumbnail
  (index 1) and one progress call result, not two.
\<close>

theorem generateThumbnails_skips_page_counterexample:
  "generateThumbnails (demoRenderer\<lparr>getContext_2d := (\<lambda>i. i \<noteq> 1)\<rparr>) demoFile =
     (Inr [\<lparr>index = 1, url = ''data:image/jpeg'', width = 300, height = 400\<rparr>], [(2, 2)])
   \<and> length [\<lparr>index = 1, url = ''data:image/jpeg'', width = 300, height = 400\<rparr>] \<noteq> length [SourcePage (10::nat), SourcePage 11]"
  by (simp add: generateThumbnails_def getDocument_def arrayBuffer_def demoFile_def demoRenderer_def
      thumbLoop.simps Let_def)

section \<open>Range selection\<close>

lemma set_Set_add: "set (Set_add xs x) = insert x (set xs)"
  by (auto simp: Set_add_def)

lemma set_rangeLoop: "set (rangeLoop xs i e) = set xs \<union> {i..e}"
proof (induction xs i e rule: rangeLoop.induct)
  case (1 newSet i end')
  show ?case
  proof (cases "i \<le> end'")
    case True
    then have "set (rangeLoop newSet i end') = set (Set_add newSet i) \<union> {i + 1..end'}"
      using 1 by (subst rangeLoop.simps) simp
    also have "\<dots> = set newSet \<union> {i..end'}" using True by (auto simp: set_Set_add)
    finally show ?thesis .
  next
    case False
    then show ?thesis by (subst rangeLoop.simps) simp
  qed
qed

lemma set_togglePageSelection_range:
  "lastSelectedIndex s = Some l \<Longrightarrow>
   set (selectedIndices (togglePageSelection idx True s)) = set (selectedIndices s) \<union> {min l idx..max l idx}"
  by (simp add: togglePageSelection_def set_rangeLoop Let_def)

text \<open>
  \<^bold>\<open>C8.\<close> With a last-touched index \<open>l\<close>, a shift-click on \<open>idx\<close> makes the selection the
  old one together with every index of the inclusive span between \<open>l\<close> and \<open>idx\<close>, in
  either direction: nothing selected before is lost. From an empty selection, a click on 2
  and a shift-click on 5 select exactly \<open>{2,3,4,5}\<close>, and a further shift-click on 0
  gives \<open>{0,1,2,3,4,5}\<close>.
\<close>

theorem togglePageSelection_range_adds:
  "(lastSelectedIndex s = Some l \<longrightarrow>
      set (selectedIndices (togglePageSelection idx True s)) =
        set (selectedIndices s) \<union> {min l idx..max l idx}
      \<and> lastSelectedIndex (togglePageSelection idx True s) = Some l)
   \<and> (selectedIndices s = [] \<longrightarrow>
      set (selectedIndices (togglePageSelection 5 True (togglePageSelection 2 False s))) = {2, 3, 4, 5}
      \<and> set (selectedIndices (togglePageSelection 0 True
                 (togglePageSelection 5 True (togglePageSelection 2 False s)))) = {0, 1, 2, 3, 4, 5})"
proof (intro conjI impI)
  assume l: "lastSelectedIndex s = Some l"
  then show "set (selectedIndices (togglePageSelection idx True s)) =
        set (selectedIndices s) \<union> {min l idx..max l idx}"
    by (rule set_togglePageSelection_range)
  from l show "lastSelectedIndex (togglePageSelection idx True s) = Some l"
    by (simp add: togglePageSelection_def Let_def)
next
  assume e: "selectedIndices s = []"
  let ?s1 = "togglePageSelection 2 False s"
  let ?s2 = "togglePageSelection 5 True ?s1"
  have s1: "selectedIndices ?s1 = [2]" "lastSelectedIndex ?s1 = Some 2"
    using e by (simp_all add: togglePageSelection_def Set_has_def Set_add_def split: option.splits)
  have s2: "set (selectedIndices ?s2) = {2} \<union> {2..5}"
    using set_togglePageSelection_range[OF s1(2), of 5] s1(1) by simp
  have l2: "lastSelectedIndex ?s2 = Some 2"
    using s1(2) by (simp add: togglePageSelection_def Let_def)
  have s3: "set (selectedIndices (togglePageSelection 0 True ?s2)) = ({2} \<union> {2..5}) \<union> {0..2}"
    using set_togglePageSelection_range[OF l2, of 0] s2 by simp
  show "set (selectedIndices ?s2) = {2, 3, 4, 5}" unfolding s2 by auto
  show "set (selectedIndices (togglePageSelection 0 True ?s2)) = {0, 1, 2, 3, 4, 5}"
    unfolding s3 by auto
qed

theorem togglePageSelection_range_adds_witness:
  "set (selectedIndices (togglePageSelection 1 True
         (initialState\<lparr>selectedIndices := [7], lastSelectedIndex := Some 3\<rparr> :: nat AppState)))
     = {7} \<union> {1..3}
   \<and> set (selectedIndices (togglePageSelection 5 True (togglePageSelection 2 False (initialState :: nat AppState))))
     = {2, 3, 4, 5}"
  using togglePageSelection_range_adds
          [of "initialState\<lparr>selectedIndices := [7], lastSelectedIndex := Some 3\<rparr> :: nat AppState" 3 1]
        togglePageSelection_range_adds [of "initialState :: nat AppState"]
  by (simp add: initialState_def)

section \<open>Saving\<close>

text \<open>
  \<^bold>\<open>C4.\<close> When the window has a save picker and the user cancels it, \<open>handleConfirmSave\<close>
  does nothing after the prompt: the only effect is the prompt itself (the mutator is not
  called, nothing is written, nothing is downloaded), and the state is the one before with
  the modal closed.
\<close>

theorem handleConfirmSave_cancelled:
  assumes "file' s = Some f" and "supportsFileSystem w" and "showSaveFilePicker w = Rejected ''AbortError''"
  shows "handleConfirmSave w s = (s\<lparr>showSaveModal := False\<rparr>, [PickerShown (fullFilename (outputFilename s))])"
  using assms by (simp add: handleConfirmSave_def getSaveFileHandle_def Let_def)

theorem handleConfirmSave_cancelled_witness:
  "handleConfirmSave \<lparr>has_showSaveFilePicker = True, showSaveFilePicker = Rejected ''AbortError''\<rparr> demoState
     = (demoState\<lparr>showSaveModal := False\<rparr>, [PickerShown ''a_editado.pdf''])"
  using handleConfirmSave_cancelled
          [of demoState demoFile "\<lparr>has_showSaveFilePicker = True, showSaveFilePicker = Rejected ''AbortError''\<rparr>"]
  by (simp add: demoState_def supportsFileSystem_def fullFilename_def endsWith_def)

text \<open>
  \<^bold>\<open>C5.\<close> With an acquired handle, \<open>writePdfToHandle\<close> first asks the handle for a write
  stream. The full output is written exactly when the stream opens, and the stream is
  closed exactly when the write then succeeds: with both succeeding the calls are open,
  write, close. When opening rejects, nothing is written; when the write rejects, the
  error leaves the function and \<open>close\<close> is not called. The function succeeds exactly
  when all three calls do.
\<close>

theorem writePdfToHandle_calls:
  "take 1 (snd (writePdfToHandle h data)) = [CreateWritableCalled]
   \<and> (WriteCalled data \<in> set (snd (writePdfToHandle h data))) = createWritable_ok h
   \<and> (CloseCalled \<in> set (snd (writePdfToHandle h data))) = (createWritable_ok h \<and> stream_write_ok h)
   \<and> (createWritable_ok h \<and> stream_write_ok h \<longrightarrow>
        snd (writePdfToHandle h data) = [CreateWritableCalled, WriteCalled data, CloseCalled])
   \<and> (createWritable_ok h \<and> \<not> stream_write_ok h \<longrightarrow>
        writePdfToHandle h data =
          (Inl (DOMException ''write''), [CreateWritableCalled, WriteCalled data]))
   \<and> (\<not> createWritable_ok h \<longrightarrow>
        writePdfToHandle h data = (Inl (DOMException ''createWritable''), [CreateWritableCalled]))
   \<and> (fst (writePdfToHandle h data) = Inr ()) =
        (createWritable_ok h \<and> stream_write_ok h \<and> stream_close_ok h)"
  by (simp add: writePdfToHandle_def)

theorem writePdfToHandle_calls_witness:
  "snd (writePdfToHandle demoHandle (PdfBytes [SourcePage (1::nat)])) =
     [CreateWritableCalled, WriteCalled (PdfBytes [SourcePage 1]), CloseCalled]
   \<and> writePdfToHandle (demoHandle\<lparr>createWritable_ok := False\<rparr>) (PdfBytes [SourcePage (1::nat)]) =
     (Inl (DOMException ''createWritable''), [CreateWritableCalled])"
proof -
  have a: "createWritable_ok demoHandle \<and> stream_write_ok demoHandle"
    by (simp add: demoHandle_def)
  have b: "\<not> createWritable_ok (demoHandle\<lparr>createWritable_ok := False\<rparr>)" by simp
  from writePdfToHandle_calls[of demoHandle "PdfBytes [SourcePage (1::nat)]"] a
  have 1: "snd (writePdfToHandle demoHandle (PdfBytes [SourcePage (1::nat)])) =
     [CreateWritableCalled, WriteCalled (PdfBytes [SourcePage 1]), CloseCalled]" by blast
  from writePdfToHandle_calls
         [of "demoHandle\<lparr>createWritable_ok := False\<rparr>" "PdfBytes [SourcePage (1::nat)]"] b
  have 2: "writePdfToHandle (demoHandle\<lparr>createWritable_ok := False\<rparr>) (PdfBytes [SourcePage (1::nat)]) =
     (Inl (DOMException ''createWritable''), [CreateWritableCalled])" by blast
  from 1 2 show ?thesis by simp
qed

text \<open>A rejected write leaves the stream unclosed.\<close>

theorem writePdfToHandle_unclosed_counterexample:
  "writePdfToHandle (demoHandle\<lparr>stream_write_ok := False\<rparr>) (PdfBytes [SourcePage (1::nat)]) =
     (Inl (DOMException ''write''), [CreateWritableCalled, WriteCalled (PdfBytes [SourcePage 1])])
   \<and> CloseCalled \<notin> set (snd (writePdfToHandle (demoHandle\<lparr>stream_write_ok := False\<rparr>) (PdfBytes [SourcePage (1::nat)])))"
  by (simp add: writePdfToHandle_def demoHandle_def)

text \<open>
  \<^bold>\<open>C9.\<close> When the picker fails for a reason other than the user's cancellation,
  \<open>handleConfirmSave\<close> goes on as in a window without a picker: after the prompt and a
  console warning, the final state and the effects are those of the run without the
  capability. In particular, when the mutator yields bytes, they are downloaded under the
  chosen name and no alert is raised.
\<close>

theorem handleConfirmSave_picker_failure:
  assumes "file' s = Some f" and "supportsFileSystem w"
    and "showSaveFilePicker w = Rejected n" and "n \<noteq> ''AbortError''"
  shows "fst (handleConfirmSave w s) = fst (handleConfirmSave (w\<lparr>has_showSaveFilePicker := False\<rparr>) s)
       \<and> snd (handleConfirmSave w s) =
           PickerShown (fullFilename (outputFilename s)) # ConsoleWarn #
             snd (handleConfirmSave (w\<lparr>has_showSaveFilePicker := False\<rparr>) s)
       \<and> (\<forall>newPdfBytes. fst (removePagesAndSave [selectedIndices s] f 0) = Inr newPdfBytes \<longrightarrow>
              snd (handleConfirmSave w s) =
                [PickerShown (fullFilename (outputFilename s)), ConsoleWarn,
                 MutatorCalled f (selectedIndices s),
                 Downloaded (fullFilename (outputFilename s)) newPdfBytes])"
  using assms
  by (simp add: handleConfirmSave_def getSaveFileHandle_def supportsFileSystem_def Let_def
      handleConfirmSave_process_def downloadBlob_def)

theorem handleConfirmSave_picker_failure_witness:
  "snd (handleConfirmSave \<lparr>has_showSaveFilePicker = True, showSaveFilePicker = Rejected ''SecurityError''\<rparr> demoState)
     = [PickerShown ''a_editado.pdf'', ConsoleWarn, MutatorCalled demoFile [1],
        Downloaded ''a_editado.pdf'' (PdfBytes [SourcePage 10])]"
proof -
  let ?w = "\<lparr>has_showSaveFilePicker = True, showSaveFilePicker = Rejected ''SecurityError''\<rparr>"
  have h1: "file' demoState = Some demoFile" by (simp add: demoState_def)
  have h2: "supportsFileSystem ?w" by (simp add: supportsFileSystem_def)
  have h3: "showSaveFilePicker ?w = Rejected ''SecurityError''" by simp
  have h4: "''SecurityError'' \<noteq> ''AbortError''" by simp
  have m: "fst (removePagesAndSave [selectedIndices demoState] demoFile 0) = Inr (PdfBytes [SourcePage 10])"
    by (simp add: demoState_def demoFile_def removePagesAndSave_def PDFDocument_load_def arrayBuffer_def
        array_spread_def array_sort_def js_sort_def removePage_def getPageCount_def save_def)
  from handleConfirmSave_picker_failure[OF h1 h2 h3 h4] m
  have "snd (handleConfirmSave ?w demoState) =
          [PickerShown (fullFilename (outputFilename demoState)), ConsoleWarn,
           MutatorCalled demoFile (selectedIndices demoState),
           Downloaded (fullFilename (outputFilename demoState)) (PdfBytes [SourcePage 10])]"
    by blast
  then show ?thesis by (simp add: demoState_def fullFilename_def endsWith_def)
qed

section \<open>The selection stays within the document\<close>

text \<open>
  \<open>handleFileSelect\<close> itself does not touch the selection: what empties it is
  \<open>resetApp\<close>, and the upload area is rendered only while no file is loaded.
\<close>

lemma handleFileSelect_begin_keeps_selection:
  "selectedIndices (handleFileSelect_begin f s) = selectedIndices s
   \<and> lastSelectedIndex (handleFileSelect_begin f s) = lastSelectedIndex s"
  by (simp add: handleFileSelect_begin_def)

lemma in_flight_ok_iff:
  "in_flight_ok x \<longleftrightarrow>
     pending x = []
   \<or> (\<exists>f. pending x = [Loading f] \<and> file' (ui x) = Some f \<and> isProcessing (ui x)
          \<and> thumbnails (ui x) = [] \<and> selectedIndices (ui x) = []
          \<and> lastSelectedIndex (ui x) = None \<and> \<not> showSaveModal (ui x))
   \<or> (pending x = [Picking] \<and> file' (ui x) \<noteq> None \<and> \<not> showSaveModal (ui x))
   \<or> (pending x = [Saving] \<and> file' (ui x) \<noteq> None \<and> isProcessing (ui x) \<and> \<not> showSaveModal (ui x))"
  by (auto simp: in_flight_ok_def split: list.splits task.splits)

lemma togglePageSelection_in_range:
  assumes "\<forall>i\<in>set (selectedIndices s). in_range s i"
    and "\<forall>l. lastSelectedIndex s = Some l \<longrightarrow> in_range s l"
    and "in_range s idx"
  shows "(\<forall>i\<in>set (selectedIndices (togglePageSelection idx k s)). in_range (togglePageSelection idx k s) i)
       \<and> (\<forall>l. lastSelectedIndex (togglePageSelection idx k s) = Some l \<longrightarrow> in_range (togglePageSelection idx k s) l)"
  using assms
  by (auto simp: togglePageSelection_def set_rangeLoop Let_def in_range_def totalPages_def
        Set_has_def Set_delete_def set_Set_add split: bool.splits option.splits)

lemma togglePageSelection_frame:
  "file' (togglePageSelection idx k s) = file' s"
  "thumbnails (togglePageSelection idx k s) = thumbnails s"
  "isProcessing (togglePageSelection idx k s) = isProcessing s"
  "showSaveModal (togglePageSelection idx k s) = showSaveModal s"
  by (auto simp: togglePageSelection_def Let_def split: bool.splits option.splits)

lemma user_step_preserves:
  "user_step x y \<Longrightarrow> Picking \<notin> set (pending x) \<Longrightarrow> session_ok x \<Longrightarrow> session_ok y"
proof (induction rule: user_step.induct)
  case (select_file x f)
  then show ?case
    by (auto simp: session_ok_def no_file_ok_def in_flight_ok_iff handleFileSelect_begin_def in_range_def)
next
  case (toggle_page x t shiftKey)
  let ?s' = "togglePageSelection (index t) shiftKey (ui x)"
  from toggle_page have idx: "in_range (ui x) (index t)" by (simp add: session_ok_def)
  from toggle_page have a: "\<forall>i\<in>set (selectedIndices (ui x)). in_range (ui x) i"
    and b: "\<forall>l. lastSelectedIndex (ui x) = Some l \<longrightarrow> in_range (ui x) l"
    by (simp_all add: session_ok_def)
  note r = togglePageSelection_in_range[OF a b idx, of shiftKey]
  have c: "\<forall>t\<in>set (thumbnails ?s'). in_range ?s' (index t)"
    using toggle_page.prems
    by (simp add: session_ok_def togglePageSelection_frame in_range_def totalPages_def)
  have d: "no_file_ok \<lparr>ui = ?s', pending = pending x\<rparr>"
    using toggle_page.hyps toggle_page.prems by (auto simp: session_ok_def no_file_ok_def togglePageSelection_frame)
  have e: "in_flight_ok \<lparr>ui = ?s', pending = pending x\<rparr>"
    using toggle_page.hyps toggle_page.prems
    by (auto simp: session_ok_def in_flight_ok_iff togglePageSelection_frame)
  show ?case using r c d e by (simp add: session_ok_def)
next
  case (clear_selection x)
  then show ?case
    by (auto simp: session_ok_def no_file_ok_def in_flight_ok_iff in_range_def totalPages_def)
next
  case (reset x)
  then show ?case
    by (auto simp: session_ok_def no_file_ok_def in_flight_ok_iff resetApp_def in_range_def)
next
  case (open_modal x)
  then show ?case
    by (auto simp: session_ok_def no_file_ok_def in_flight_ok_iff openSaveModal_def in_range_def totalPages_def)
next
  case (close_modal x)
  then show ?case
    by (auto simp: session_ok_def no_file_ok_def in_flight_ok_iff in_range_def totalPages_def)
next
  case (edit_filename x n)
  then show ?case
    by (auto simp: session_ok_def no_file_ok_def in_flight_ok_iff in_range_def totalPages_def)
next
  case (confirm_save x w)
  then show ?case
    by (auto simp: session_ok_def no_file_ok_def in_flight_ok_iff handleConfirmSave_begin_def
        in_range_def totalPages_def split: option.splits)
qed

lemma async_step_preserves: "async_step x y \<Longrightarrow> session_ok x \<Longrightarrow> session_ok y"
proof (induction rule: async_step.induct)
  case (load_progress f x p)
  then show ?case
    by (auto simp: session_ok_def no_file_ok_def in_flight_ok_iff in_range_def totalPages_def)
next
  case (load_settled f x br)
  then have P: "pending x = [Loading f]" "file' (ui x) = Some f" "thumbnails (ui x) = []"
     "selectedIndices (ui x) = []" "lastSelectedIndex (ui x) = None" "\<not> showSaveModal (ui x)"
    by (auto simp: session_ok_def in_flight_ok_iff)
  show ?case
  proof (cases "fst (generateThumbnails br f)")
    case (Inl e)
    with P show ?thesis
      by (simp add: session_ok_def no_file_ok_def in_flight_ok_iff handleFileSelect_settle_def in_range_def)
  next
    case (Inr ts)
    from generateThumbnails_indices[OF Inr] obtain d where
      d: "file_bytes f = PdfBytes d" "\<forall>t\<in>set ts. 0 \<le> index t \<and> index t < int (length d)" by blast
    with P Inr show ?thesis
      by (simp add: session_ok_def no_file_ok_def in_flight_ok_iff handleFileSelect_settle_def
          in_range_def totalPages_def)
  qed
next
  case (picker_aborted x)
  then show ?case
    by (auto simp: session_ok_def no_file_ok_def in_flight_ok_iff in_range_def totalPages_def)
next
  case (picker_answered x)
  then show ?case
    by (auto simp: session_ok_def no_file_ok_def in_flight_ok_iff in_range_def totalPages_def)
next
  case (save_settled x)
  then show ?case
    by (auto simp: session_ok_def no_file_ok_def in_flight_ok_iff in_range_def totalPages_def)
qed

lemma quiet_step_preserves: "quiet_step x y \<Longrightarrow> session_ok x \<Longrightarrow> session_ok y"
  unfolding quiet_step_def by (blast intro: user_step_preserves async_step_preserves)

lemma quiet_reachable_ok: "quiet_reachable x \<Longrightarrow> session_ok x"
proof (induction rule: quiet_reachable.induct)
  case quiet_start
  show ?case
    by (simp add: session_ok_def no_file_ok_def in_flight_ok_iff initialSession_def initialState_def)
next
  case (quiet_after x y)
  then show ?case by (blast intro: quiet_step_preserves)
qed

lemma quiet_step_is_step: "quiet_step x y \<Longrightarrow> step x y"
  by (auto simp: quiet_step_def step_def)

lemma quiet_reachable_is_reachable: "quiet_reachable x \<Longrightarrow> reachable x"
  by (induction rule: quiet_reachable.induct) (blast intro: start after quiet_step_is_step)+

lemma user_step_new_file_clears:
  "user_step x y \<Longrightarrow> session_ok x \<Longrightarrow> file' (ui y) \<noteq> file' (ui x) \<Longrightarrow> selectedIndices (ui y) = []"
  by (induction rule: user_step.induct)
     (auto simp: session_ok_def no_file_ok_def handleFileSelect_begin_def resetApp_def openSaveModal_def
        handleConfirmSave_begin_def togglePageSelection_frame split: option.splits if_splits)

lemma async_step_new_file_clears:
  "async_step x y \<Longrightarrow> session_ok x \<Longrightarrow> file' (ui y) \<noteq> file' (ui x) \<Longrightarrow> selectedIndices (ui y) = []"
proof (induction rule: async_step.induct)
  case (load_settled f x br)
  then show ?case
    by (auto simp: session_ok_def in_flight_ok_iff handleFileSelect_settle_def split: sum.splits)
qed auto

lemma quiet_step_new_file_clears:
  "quiet_step x y \<Longrightarrow> session_ok x \<Longrightarrow> file' (ui y) \<noteq> file' (ui x) \<Longrightarrow> selectedIndices (ui y) = []"
  unfolding quiet_step_def by (blast intro: user_step_new_file_clears async_step_new_file_clears)

text \<open>Sample runs: thumbnails of the sample files, and the names derived from them.\<close>

lemma index_demoThumb: "index (demoThumb i) = i"
  by (simp add: demoThumb_def)

lemma thumbnails_threePages:
  "fst (generateThumbnails demoRenderer threePages) = Inr [demoThumb 0, demoThumb 1, demoThumb 2]"
  by (simp add: generateThumbnails_def getDocument_def arrayBuffer_def threePages_def demoRenderer_def
      demoThumb_def thumbLoop.simps Let_def)

lemma thumbnails_onePage:
  "fst (generateThumbnails demoRenderer onePage) = Inr [demoThumb 0]"
  by (simp add: generateThumbnails_def getDocument_def arrayBuffer_def onePage_def demoRenderer_def
      demoThumb_def thumbLoop.simps Let_def)

lemma thumbnails_demoFile:
  "fst (generateThumbnails demoRenderer demoFile) = Inr [demoThumb 0, demoThumb 1]"
  by (simp add: generateThumbnails_def getDocument_def arrayBuffer_def demoFile_def demoRenderer_def
      demoThumb_def thumbLoop.simps Let_def)

lemma sample_names:
  "stripPdfSuffix (file_name threePages) = ''a''"
  "stripPdfSuffix (file_name onePage) = ''c''"
  "stripPdfSuffix (file_name demoFile) = ''a''"
  by (simp_all add: stripPdfSuffix_def threePages_def onePage_def demoFile_def)

lemma initialSession_mkState:
  "(initialSession :: nat session) = \<lparr>ui = mkState None [] [] None False False [], pending = []\<rparr>"
  by (simp add: initialSession_def initialState_def mkState_def)

lemma demoSession_mkState:
  "demoSession =
     \<lparr>ui = mkState (Some demoFile) [demoThumb 0, demoThumb 1] [1] (Some 1) False False ''a_editado'',
      pending = []\<rparr>"
  by (simp add: demoSession_def mkState_def demoThumb_def)

lemma demoSession_quiet_reachable: "quiet_reachable demoSession"
proof -
  let ?A = "Some demoFile" and ?T = "[demoThumb 0, demoThumb 1]" and ?n = "''a_editado''"
  let ?x0 = "\<lparr>ui = mkState None [] [] None False False [], pending = []\<rparr>"
  let ?x1 = "\<lparr>ui = mkState ?A [] [] None True False ?n, pending = [Loading demoFile]\<rparr>"
  let ?x2 = "\<lparr>ui = mkState ?A ?T [] None False False ?n, pending = []\<rparr>"
  let ?x3 = "\<lparr>ui = mkState ?A ?T [1] (Some 1) False False ?n, pending = []\<rparr>"
  have r0: "quiet_reachable ?x0" using quiet_start[where ?'c = nat] by (simp add: initialSession_mkState)
  have "quiet_step ?x0 ?x1"
    using select_file[of ?x0 demoFile]
    by (simp add: quiet_step_def mkState_def handleFileSelect_begin_def sample_names)
  with r0 have r1: "quiet_reachable ?x1" by (rule quiet_after)
  have "quiet_step ?x1 ?x2"
    using load_settled[of demoFile ?x1 demoRenderer]
    by (simp add: quiet_step_def mkState_def handleFileSelect_settle_def thumbnails_demoFile)
  with r1 have r2: "quiet_reachable ?x2" by (rule quiet_after)
  have "quiet_step ?x2 ?x3"
    using toggle_page[of ?x2 "demoThumb 1" False]
    by (simp add: quiet_step_def mkState_def togglePageSelection_def index_demoThumb Set_has_def Set_add_def)
  with r2 have "quiet_reachable ?x3" by (rule quiet_after)
  then show ?thesis by (simp add: demoSession_mkState)
qed

text \<open>
  A run in which the user acts while the save picker is open: a three-page file is
  loaded, page 2 selected, the save confirmed; with the picker open the user resets and
  uploads the file again; the picker answers and the save ends, which ends the processing
  flag while the load is still in flight, so the user can reset again; the load then
  settles into the session without a file and leaves its three thumbnails; a one-page file
  is uploaded, the user clicks the stale thumbnail of page 2, and the load settles.
\<close>

lemma raceSession_reachable: "reachable raceSession"
proof -
  let ?A = "Some threePages" and ?C = "Some onePage"
  let ?T = "[demoThumb 0, demoThumb 1, demoThumb 2]"
  let ?a = "''a_editado''" and ?c = "''c_editado''"
  let ?w = "\<lparr>has_showSaveFilePicker = True, showSaveFilePicker = Picked demoHandle\<rparr>"
  let ?x0 = "\<lparr>ui = mkState None [] [] None False False [], pending = []\<rparr>"
  let ?x1 = "\<lparr>ui = mkState ?A [] [] None True False ?a, pending = [Loading threePages]\<rparr>"
  let ?x2 = "\<lparr>ui = mkState ?A ?T [] None False False ?a, pending = []\<rparr>"
  let ?x3 = "\<lparr>ui = mkState ?A ?T [2] (Some 2) False False ?a, pending = []\<rparr>"
  let ?x4 = "\<lparr>ui = mkState ?A ?T [2] (Some 2) False True ?a, pending = []\<rparr>"
  let ?x5 = "\<lparr>ui = mkState ?A ?T [2] (Some 2) False False ?a, pending = [Picking]\<rparr>"
  let ?x6 = "\<lparr>ui = mkState None [] [] None False False [], pending = [Picking]\<rparr>"
  let ?x7 = "\<lparr>ui = mkState ?A [] [] None True False ?a, pending = [Loading threePages, Picking]\<rparr>"
  let ?x8 = "\<lparr>ui = mkState ?A [] [] None True False ?a, pending = [Saving, Loading threePages]\<rparr>"
  let ?x9 = "\<lparr>ui = mkState ?A [] [] None False False ?a, pending = [Loading threePages]\<rparr>"
  let ?x10 = "\<lparr>ui = mkState None [] [] None False False [], pending = [Loading threePages]\<rparr>"
  let ?x11 = "\<lparr>ui = mkState None ?T [] None False False [], pending = []\<rparr>"
  let ?x12 = "\<lparr>ui = mkState ?C ?T [] None True False ?c, pending = [Loading onePage]\<rparr>"
  let ?x13 = "\<lparr>ui = mkState ?C ?T [2] (Some 2) True False ?c, pending = [Loading onePage]\<rparr>"
  let ?x14 = "\<lparr>ui = mkState ?C [demoThumb 0] [2] (Some 2) False False ?c, pending = []\<rparr>"
  have r0: "reachable ?x0" using start[where ?'c = nat] by (simp add: initialSession_mkState)
  have "step ?x0 ?x1"
    using select_file[of ?x0 threePages]
    by (simp add: step_def mkState_def handleFileSelect_begin_def sample_names)
  with r0 have r1: "reachable ?x1" by (rule after)
  have "step ?x1 ?x2"
    using load_settled[of threePages ?x1 demoRenderer]
    by (simp add: step_def mkState_def handleFileSelect_settle_def thumbnails_threePages)
  with r1 have r2: "reachable ?x2" by (rule after)
  have "step ?x2 ?x3"
    using toggle_page[of ?x2 "demoThumb 2" False]
    by (simp add: step_def mkState_def togglePageSelection_def index_demoThumb Set_has_def Set_add_def)
  with r2 have r3: "reachable ?x3" by (rule after)
  have "step ?x3 ?x4"
    using open_modal[of ?x3] by (simp add: step_def mkState_def openSaveModal_def)
  with r3 have r4: "reachable ?x4" by (rule after)
  have "step ?x4 ?x5"
    using confirm_save[of ?x4 ?w]
    by (simp add: step_def mkState_def handleConfirmSave_begin_def supportsFileSystem_def)
  with r4 have r5: "reachable ?x5" by (rule after)
  have "step ?x5 ?x6"
    using reset[of ?x5] by (simp add: step_def mkState_def resetApp_def)
  with r5 have r6: "reachable ?x6" by (rule after)
  have "step ?x6 ?x7"
    using select_file[of ?x6 threePages]
    by (simp add: step_def mkState_def handleFileSelect_begin_def sample_names)
  with r6 have r7: "reachable ?x7" by (rule after)
  have "step ?x7 ?x8"
    using picker_answered[of ?x7] by (simp add: step_def mkState_def)
  with r7 have r8: "reachable ?x8" by (rule after)
  have "step ?x8 ?x9"
    using save_settled[of ?x8] by (simp add: step_def mkState_def)
  with r8 have r9: "reachable ?x9" by (rule after)
  have "step ?x9 ?x10"
    using reset[of ?x9] by (simp add: step_def mkState_def resetApp_def)
  with r9 have r10: "reachable ?x10" by (rule after)
  have "step ?x10 ?x11"
    using load_settled[of threePages ?x10 demoRenderer]
    by (simp add: step_def mkState_def handleFileSelect_settle_def thumbnails_threePages)
  with r10 have r11: "reachable ?x11" by (rule after)
  have "step ?x11 ?x12"
    using select_file[of ?x11 onePage]
    by (simp add: step_def mkState_def handleFileSelect_begin_def sample_names)
  with r11 have r12: "reachable ?x12" by (rule after)
  have "step ?x12 ?x13"
    using toggle_page[of ?x12 "demoThumb 2" False]
    by (simp add: step_def mkState_def togglePageSelection_def index_demoThumb Set_has_def Set_add_def)
  with r12 have r13: "reachable ?x13" by (rule after)
  have "step ?x13 ?x14"
    using load_settled[of onePage ?x13 demoRenderer]
    by (simp add: step_def mkState_def handleFileSelect_settle_def thumbnails_onePage)
  with r13 have "reachable ?x14" by (rule after)
  then show ?thesis by (simp add: raceSession_def)
qed

text \<open>
  The handlers, run from their call to their end without another step in between, are
  quiet runs of the session: the steps above are their pieces.
\<close>

lemma progress_steps:
  "Loading f \<in> set P \<Longrightarrow>
   rtranclp quiet_step \<lparr>ui = s, pending = P\<rparr>
     \<lparr>ui = foldl (\<lambda>st (current, total). st\<lparr>loadingProgress := percent current total\<rparr>) s calls,
      pending = P\<rparr>"
proof (induction calls arbitrary: s)
  case Nil
  then show ?case by simp
next
  case (Cons c calls)
  obtain current total where c: "c = (current, total)" by (cases c)
  have "quiet_step \<lparr>ui = s, pending = P\<rparr> \<lparr>ui = s\<lparr>loadingProgress := percent current total\<rparr>, pending = P\<rparr>"
    using load_progress[of f "\<lparr>ui = s, pending = P\<rparr>" "percent current total"] Cons.prems
    by (simp add: quiet_step_def)
  with Cons.IH[OF Cons.prems, of "s\<lparr>loadingProgress := percent current total\<rparr>"] c
  show ?case by (simp add: converse_rtranclp_into_rtranclp)
qed

lemma select_file_step:
  "file' s = None \<Longrightarrow> \<not> isProcessing s \<Longrightarrow>
   quiet_step \<lparr>ui = s, pending = []\<rparr> \<lparr>ui = handleFileSelect_begin f s, pending = [Loading f]\<rparr>"
  using select_file[of "\<lparr>ui = s, pending = []\<rparr>" f] by (simp add: quiet_step_def)

lemma load_settled_step:
  "quiet_step \<lparr>ui = s, pending = [Loading f]\<rparr>
        \<lparr>ui = handleFileSelect_settle (fst (generateThumbnails br f)) s, pending = []\<rparr>"
  using load_settled[of f "\<lparr>ui = s, pending = [Loading f]\<rparr>" br] by (simp add: quiet_step_def)

lemma confirm_save_step:
  "showSaveModal s \<Longrightarrow>
   quiet_step \<lparr>ui = s, pending = []\<rparr> (handleConfirmSave_begin w \<lparr>ui = s, pending = []\<rparr>)"
  using confirm_save[of "\<lparr>ui = s, pending = []\<rparr>" w] by (simp add: quiet_step_def)

lemma picker_aborted_step:
  "quiet_step \<lparr>ui = s, pending = [Picking]\<rparr> \<lparr>ui = s, pending = []\<rparr>"
  using picker_aborted[of "\<lparr>ui = s, pending = [Picking]\<rparr>"] by (simp add: quiet_step_def)

lemma picker_answered_step:
  "quiet_step \<lparr>ui = s, pending = [Picking]\<rparr> \<lparr>ui = s\<lparr>isProcessing := True\<rparr>, pending = [Saving]\<rparr>"
  using picker_answered[of "\<lparr>ui = s, pending = [Picking]\<rparr>"] by (simp add: quiet_step_def)

lemma save_settled_step:
  "quiet_step \<lparr>ui = s, pending = [Saving]\<rparr> \<lparr>ui = s\<lparr>isProcessing := False\<rparr>, pending = []\<rparr>"
  using save_settled[of "\<lparr>ui = s, pending = [Saving]\<rparr>"] by (simp add: quiet_step_def)

lemma handleFileSelect_runs:
  assumes "file' s = None" and "\<not> isProcessing s"
  shows "rtranclp quiet_step \<lparr>ui = s, pending = []\<rparr> \<lparr>ui = handleFileSelect percent br f s, pending = []\<rparr>"
proof -
  obtain outcome calls where g: "generateThumbnails br f = (outcome, calls)"
    by (cases "generateThumbnails br f")
  let ?s0 = "handleFileSelect_begin f s"
  let ?s1 = "foldl (\<lambda>st (current, total). st\<lparr>loadingProgress := percent current total\<rparr>) ?s0 calls"
  have a: "quiet_step \<lparr>ui = s, pending = []\<rparr> \<lparr>ui = ?s0, pending = [Loading f]\<rparr>"
    using assms by (rule select_file_step)
  have b: "rtranclp quiet_step \<lparr>ui = ?s0, pending = [Loading f]\<rparr> \<lparr>ui = ?s1, pending = [Loading f]\<rparr>"
    by (rule progress_steps) simp
  have c: "quiet_step \<lparr>ui = ?s1, pending = [Loading f]\<rparr> \<lparr>ui = handleFileSelect_settle outcome ?s1, pending = []\<rparr>"
    using load_settled_step[of ?s1 f br] g by simp
  have "handleFileSelect percent br f s = handleFileSelect_settle outcome ?s1"
    using g by (simp add: handleFileSelect_def)
  with a b c show ?thesis
    by (metis (no_types, lifting) converse_rtranclp_into_rtranclp rtranclp.rtrancl_into_rtrancl)
qed

lemma handleConfirmSave_runs:
  assumes "showSaveModal s"
  shows "rtranclp quiet_step \<lparr>ui = s, pending = []\<rparr> \<lparr>ui = fst (handleConfirmSave w s), pending = []\<rparr>"
proof (cases "file' s")
  case None
  then show ?thesis by (simp add: handleConfirmSave_def)
next
  case (Some f)
  let ?s1 = "s\<lparr>showSaveModal := False\<rparr>"
  note b = confirm_save_step[OF assms, of w]
  note 2 = save_settled_step[of "?s1\<lparr>isProcessing := True\<rparr>"]
  show ?thesis
  proof (cases "supportsFileSystem w")
    case False
    then have 1: "quiet_step \<lparr>ui = s, pending = []\<rparr> \<lparr>ui = ?s1\<lparr>isProcessing := True\<rparr>, pending = [Saving]\<rparr>"
      using Some b by (simp add: handleConfirmSave_begin_def)
    have "fst (handleConfirmSave w s) = ?s1\<lparr>isProcessing := False\<rparr>"
      using Some False by (simp add: handleConfirmSave_def Let_def)
    with 1 2 show ?thesis by (simp add: converse_rtranclp_into_rtranclp)
  next
    case True
    then have 1: "quiet_step \<lparr>ui = s, pending = []\<rparr> \<lparr>ui = ?s1, pending = [Picking]\<rparr>"
      using Some b by (simp add: handleConfirmSave_begin_def)
    note ab = picker_aborted_step[of ?s1]
    note an = picker_answered_step[of ?s1]
    have "fst (handleConfirmSave w s) = ?s1 \<or> fst (handleConfirmSave w s) = ?s1\<lparr>isProcessing := False\<rparr>"
      using Some True
      by (auto simp: handleConfirmSave_def Let_def getSaveFileHandle_def split: picker_answer.splits prod.splits sum.splits)
    then show ?thesis
    proof
      assume "fst (handleConfirmSave w s) = ?s1"
      with 1 ab show ?thesis by (simp add: converse_rtranclp_into_rtranclp)
    next
      assume e: "fst (handleConfirmSave w s) = ?s1\<lparr>isProcessing := False\<rparr>"
      have "rtranclp quiet_step \<lparr>ui = ?s1, pending = [Picking]\<rparr> \<lparr>ui = ?s1\<lparr>isProcessing := False\<rparr>, pending = []\<rparr>"
        using an 2 by (simp add: converse_rtranclp_into_rtranclp)
      with 1 e show ?thesis by (simp add: converse_rtranclp_into_rtranclp)
    qed
  qed
qed

text \<open>
  \<^bold>\<open>C6.\<close> In every session reached without the user acting on the page while the save
  picker is open, every selected index is a page index of the loaded document (at least 0
  and below its page count). \<open>resetApp\<close> empties the selection. Starting a load leaves
  the selection as it is; in these sessions it is already empty whenever no file is
  loaded, which is when the upload area shows, so every quiet step that changes the
  loaded file (a load, a failed load, a reset) ends with an empty selection.
\<close>

theorem selection_within_document:
  assumes "quiet_reachable x"
  shows "(\<forall>i\<in>set (selectedIndices (ui x)). 0 \<le> i \<and> i < totalPages (ui x))
       \<and> selectedIndices (resetApp (ui x)) = []
       \<and> (\<forall>f. selectedIndices (handleFileSelect_begin f (ui x)) = selectedIndices (ui x))
       \<and> (file' (ui x) = None \<longrightarrow> selectedIndices (ui x) = [])
       \<and> (\<forall>y. quiet_step x y \<longrightarrow> file' (ui y) \<noteq> file' (ui x) \<longrightarrow> selectedIndices (ui y) = [])"
proof -
  have ok: "session_ok x" using assms by (rule quiet_reachable_ok)
  then have "\<forall>i\<in>set (selectedIndices (ui x)). 0 \<le> i \<and> i < totalPages (ui x)"
    by (simp add: session_ok_def in_range_def)
  moreover have "selectedIndices (resetApp (ui x)) = []" by (simp add: resetApp_def)
  moreover have "\<forall>f. selectedIndices (handleFileSelect_begin f (ui x)) = selectedIndices (ui x)"
    by (simp add: handleFileSelect_begin_keeps_selection)
  moreover have "file' (ui x) = None \<longrightarrow> selectedIndices (ui x) = []"
    using ok by (simp add: session_ok_def no_file_ok_def)
  moreover have "\<forall>y. quiet_step x y \<longrightarrow> file' (ui y) \<noteq> file' (ui x) \<longrightarrow> selectedIndices (ui y) = []"
    using ok by (blast intro: quiet_step_new_file_clears)
  ultimately show ?thesis by blast
qed

theorem selection_within_document_witness:
  "quiet_reachable demoSession \<and> selectedIndices (ui demoSession) = [1] \<and> totalPages (ui demoSession) = 2
   \<and> selectedIndices (resetApp (ui demoSession)) = []"
  using selection_within_document[OF demoSession_quiet_reachable] demoSession_quiet_reachable
  by (simp add: demoSession_def totalPages_def demoFile_def)

text \<open>
  With the user acting while the picker is open, a session is reached in which a one-page
  file is loaded and index 2 is selected.
\<close>

theorem selection_out_of_range_counterexample:
  "reachable raceSession \<and> selectedIndices (ui raceSession) = [2] \<and> totalPages (ui raceSession) = 1
   \<and> \<not> (2 < totalPages (ui raceSession))"
  using raceSession_reachable
  by (simp add: raceSession_def mkState_def totalPages_def onePage_def)

end
